theory Spec2Isabelle
  imports Main "HOL-Library.Word" "HOL-Library.Char_ord" "HOL-Library.List_Lexorder"
begin

unbundle bit_operations_syntax

section \<open>The JavaScript primitives the service uses\<close>

text \<open>
  Strings are lists of characters. The model covers ASCII text: \<open>toUpperCase\<close> maps
  the letters a to z to A to Z and leaves every other character alone, and the white
  space \<open>parseInt\<close> skips is tab, line feed, vertical tab, form feed, carriage return
  and space.
\<close>

definition upper_char :: "char \<Rightarrow> char" where
  "upper_char c =
     (if CHR ''a'' \<le> c \<and> c \<le> CHR ''z'' then char_of (of_char c - (32::nat)) else c)"

definition toUpperCase :: "string \<Rightarrow> string" where
  "toUpperCase s = map upper_char s"

text \<open>\<open>s.includes(sub)\<close>: some suffix of \<open>s\<close> starts with \<open>sub\<close>.\<close>

fun str_includes :: "string \<Rightarrow> string \<Rightarrow> bool" where
  "str_includes [] sub = (sub = [])"
| "str_includes (c # cs) sub = (take (length sub) (c # cs) = sub \<or> str_includes cs sub)"

text \<open>
  \<open>s.split(sep)\<close> for a non-empty separator (the service splits at \<open>.\<close>, \<open>:\<close>,
  \<open>/\<close> and \<open>::\<close>): the pieces between the occurrences of \<open>sep\<close>, found from the
  left; the empty string gives one empty piece.
\<close>

fun str_split :: "string \<Rightarrow> string \<Rightarrow> string list" where
  "str_split sep [] = [[]]"
| "str_split sep (c # cs) =
     (if take (length sep) (c # cs) = sep
      then [] # str_split sep (drop (length sep - 1) cs)
      else (case str_split sep cs of
              [] \<Rightarrow> [[c]]
            | p # ps \<Rightarrow> (c # p) # ps))"

text \<open>\<open>parts.join(sep)\<close>.\<close>

fun str_join :: "string \<Rightarrow> string list \<Rightarrow> string" where
  "str_join sep [] = []"
| "str_join sep [x] = x"
| "str_join sep (x # y # ys) = x @ sep @ str_join sep (y # ys)"

text \<open>\<open>s.padStart(n, c)\<close> for a one-character filler.\<close>

definition padStart :: "nat \<Rightarrow> char \<Rightarrow> string \<Rightarrow> string" where
  "padStart n c s = replicate (n - length s) c @ s"

text \<open>\<open>xs[i]\<close>: \<open>undefined\<close> (here \<open>None\<close>) past the end of the array.\<close>

definition at_index :: "'a list \<Rightarrow> nat \<Rightarrow> 'a option" where
  "at_index xs i = (if i < length xs then Some (xs ! i) else None)"

text \<open>
  Numbers. The service only forms integers and \<open>NaN\<close> by \<open>parseInt\<close>; \<open>Num n\<close> is
  the double whose value is the integer \<open>n\<close>. A double holds every integer of magnitude
  up to \<open>2 ^ 53\<close> exactly, which covers every octet, group and prefix length of a
  well-formed address; a longer run of digits is rounded by JavaScript and is read
  here as the integer it spells, so the statements about parsed text keep to octets,
  groups and prefix lengths within that range.
\<close>

datatype jsnum = NaN | Num int

definition is_ws :: "char \<Rightarrow> bool" where
  "is_ws c = (c \<in> set [CHR 0x09, CHR 0x0A, CHR 0x0B, CHR 0x0C, CHR 0x0D, CHR 0x20])"

definition digit_val :: "char \<Rightarrow> nat option" where
  "digit_val c =
     (if CHR ''0'' \<le> c \<and> c \<le> CHR ''9'' then Some (of_char c - 48)
      else if CHR ''a'' \<le> c \<and> c \<le> CHR ''z'' then Some (of_char c - 87)
      else if CHR ''A'' \<le> c \<and> c \<le> CHR ''Z'' then Some (of_char c - 55)
      else None)"

definition is_digit :: "nat \<Rightarrow> char \<Rightarrow> bool" where
  "is_digit radix c = (case digit_val c of None \<Rightarrow> False | Some d \<Rightarrow> d < radix)"

definition digits_value :: "nat \<Rightarrow> string \<Rightarrow> nat" where
  "digits_value radix ds =
     foldl (\<lambda>acc c. acc * radix + (case digit_val c of None \<Rightarrow> 0 | Some d \<Rightarrow> d)) 0 ds"

text \<open>
  \<open>parseInt(s, radix)\<close> for radix 10 and 16: skip leading white space, take a sign,
  for radix 16 skip a leading \<open>0x\<close> or \<open>0X\<close>, then read the longest run of digits of
  the radix; \<open>NaN\<close> when that run is empty. What follows the run is ignored.
\<close>

definition parseInt :: "string \<Rightarrow> nat \<Rightarrow> jsnum" where
  "parseInt s radix =
     (let t = dropWhile is_ws s;
          neg = (take 1 t = ''-'');
          t1 = (if take 1 t = ''-'' \<or> take 1 t = ''+'' then drop 1 t else t);
          t2 = (if radix = 16 \<and> (take 2 t1 = ''0x'' \<or> take 2 t1 = ''0X'')
                then drop 2 t1 else t1);
          ds = takeWhile (is_digit radix) t2
      in if ds = [] then NaN
         else Num ((if neg then - 1 else 1) * int (digits_value radix ds)))"

text \<open>\<open>parseInt\<close> of a value that may be \<open>undefined\<close>, which reads as the text
  \<open>undefined\<close>.\<close>

definition parseInt_opt :: "string option \<Rightarrow> nat \<Rightarrow> jsnum" where
  "parseInt_opt v radix =
     (case v of None \<Rightarrow> parseInt ''undefined'' radix | Some s \<Rightarrow> parseInt s radix)"

text \<open>\<open>ToInt32\<close>, the conversion every bitwise operator applies: \<open>NaN\<close> and
  \<open>undefined\<close> become 0, an integer is reduced modulo \<open>2 ^ 32\<close>.\<close>

definition toInt32 :: "jsnum option \<Rightarrow> 32 word" where
  "toInt32 v = (case v of None \<Rightarrow> 0 | Some NaN \<Rightarrow> 0 | Some (Num n) \<Rightarrow> word_of_int n)"

text \<open>\<open>n.toString(2)\<close>.\<close>

fun bin_digits :: "nat \<Rightarrow> string" where
  "bin_digits n =
     (if n < 2 then [if n = 0 then CHR ''0'' else CHR ''1'']
      else bin_digits (n div 2) @ [if n mod 2 = 0 then CHR ''0'' else CHR ''1''])"

definition toString2 :: "jsnum \<Rightarrow> string" where
  "toString2 x =
     (case x of
        NaN \<Rightarrow> ''NaN''
      | Num n \<Rightarrow> if n < 0 then CHR ''-'' # bin_digits (nat (- n)) else bin_digits (nat n))"

text \<open>\<open>s.substring(0, n)\<close>: \<open>NaN\<close> and negative \<open>n\<close> count as 0, and \<open>n\<close> past
  the end as the length.\<close>

definition substring0 :: "string \<Rightarrow> jsnum \<Rightarrow> string" where
  "substring0 s n = (case n of NaN \<Rightarrow> [] | Num k \<Rightarrow> take (nat k) s)"

datatype error = TypeError | RangeError

section \<open>Address arithmetic\<close>

text \<open>
  \<open>ipv4ToNumber\<close>: \<open>((parts[0] << 24) | (parts[1] << 16) | (parts[2] << 8) | parts[3]) >>> 0\<close>
  on the \<open>parseInt\<close> of the pieces between dots. The result is the unsigned reading
  of the 32-bit value.
\<close>

definition ipv4ToNumber :: "string \<Rightarrow> jsnum" where
  "ipv4ToNumber ip =
     (let parts = map (\<lambda>p. parseInt p 10) (str_split ''.'' ip)
      in Num (uint (push_bit 24 (toInt32 (at_index parts 0))
                    OR push_bit 16 (toInt32 (at_index parts 1))
                    OR push_bit 8 (toInt32 (at_index parts 2))
                    OR toInt32 (at_index parts 3))))"

text \<open>
  The mask \<open>~(2 ** (32 - n) - 1)\<close> for \<open>n = parseInt(bits, 10)\<close>, as a 32-bit value.
  With \<open>e = 32 - n\<close>: for \<open>0 \<le> e \<le> 53\<close> the double \<open>2 ** e - 1\<close> is that integer;
  from \<open>e = 54\<close> on it rounds to \<open>2 ** e\<close> (or is infinite), which \<open>ToInt32\<close> sends
  to 0; for \<open>- 53 \<le> e < 0\<close> it lies strictly between -1 and 0 and truncates to 0;
  below that it rounds to -1. \<open>NaN\<close> stays \<open>NaN\<close> and converts to 0.
\<close>

definition cidr_mask :: "jsnum \<Rightarrow> 32 word" where
  "cidr_mask n =
     (case n of
        NaN \<Rightarrow> NOT 0
      | Num k \<Rightarrow>
          (let e = 32 - k
           in if 54 \<le> e then NOT 0
              else if 0 \<le> e then NOT (word_of_int (2 ^ nat e - 1))
              else if - 53 \<le> e then NOT 0
              else NOT (- 1)))"

definition isIpv4InCidr :: "string \<Rightarrow> string \<Rightarrow> bool" where
  "isIpv4InCidr ip cidr =
     (let parts = str_split ''/'' cidr;
          range = (case at_index parts 0 of None \<Rightarrow> [] | Some r \<Rightarrow> r);
          bits = at_index parts 1;
          mask = cidr_mask (parseInt_opt bits 10);
          ipNum = ipv4ToNumber ip;
          rangeNum = ipv4ToNumber range
      in (toInt32 (Some ipNum) AND mask) = (toInt32 (Some rangeNum) AND mask))"

text \<open>
  \<open>expandIpv6\<close>: with a \<open>::\<close> in the text, the groups left of the first \<open>::\<close> and the
  groups between the first and the second, with \<open>8 - left - right\<close> groups \<open>0000\<close> in
  between; \<open>Array(missing)\<close> throws a \<open>RangeError\<close> for a negative length. Every group
  is padded to four characters.
\<close>

definition expandIpv6 :: "string \<Rightarrow> error + string" where
  "expandIpv6 ip =
     (if str_includes ip ''::'' then
        (let parts = str_split ''::'' ip;
             p0 = (case at_index parts 0 of None \<Rightarrow> [] | Some p \<Rightarrow> p);
             p1 = (case at_index parts 1 of None \<Rightarrow> [] | Some p \<Rightarrow> p);
             left = (if p0 \<noteq> [] then str_split '':'' p0 else []);
             right = (if p1 \<noteq> [] then str_split '':'' p1 else []);
             missing = 8 - int (length left) - int (length right)
         in if missing < 0 then Inl RangeError
            else Inr (str_join '':'' (map (padStart 4 CHR ''0'')
                        (left @ replicate (nat missing) ''0000'' @ right))))
      else Inr (str_join '':'' (map (padStart 4 CHR ''0'') (str_split '':'' ip))))"

definition ipv6ToBinary :: "string \<Rightarrow> string" where
  "ipv6ToBinary ip =
     concat (map (\<lambda>hex. padStart 16 CHR ''0'' (toString2 (parseInt hex 16))) (str_split '':'' ip))"

definition isIpv6InCidr :: "string \<Rightarrow> string \<Rightarrow> error + bool" where
  "isIpv6InCidr ip cidr =
     (let parts = str_split ''/'' cidr;
          range = (case at_index parts 0 of None \<Rightarrow> [] | Some r \<Rightarrow> r);
          prefixBits = parseInt_opt (at_index parts 1) 10
      in case expandIpv6 ip of
           Inl e \<Rightarrow> Inl e
         | Inr ipExpanded \<Rightarrow>
             (case expandIpv6 range of
                Inl e \<Rightarrow> Inl e
              | Inr rangeExpanded \<Rightarrow>
                  Inr (substring0 (ipv6ToBinary ipExpanded) prefixBits
                       = substring0 (ipv6ToBinary rangeExpanded) prefixBits)))"

section \<open>The dataset and the cached state\<close>

text \<open>
  The entries of the upstream document. The fields of the IPv6 entries, and below the
  fields of the other records that repeat a name, carry a suffix.
\<close>

record IPPrefix =
  ip_prefix :: string
  region :: string
  service :: string
  network_border_group :: string

record IPv6Prefix =
  ipv6_prefix :: string
  region6 :: string
  service6 :: string
  network_border_group6 :: string

text \<open>
  \<open>response.data\<close>. The TypeScript type promises an \<open>AWSIpRangesResponse\<close>; at run
  time the body is whatever the server sent, so a field may be missing (\<open>None\<close> is
  \<open>undefined\<close>), and the body may be \<open>null\<close> or text that is not JSON, which the
  HTTP client hands over as a string. The entries themselves are taken as typed: a
  dataset whose entries lack a field, or hold one that is not a string, is outside the
  model.
\<close>

record AWSIpRangesResponse =
  syncToken :: "string option"
  prefixes :: "IPPrefix list option"
  ipv6_prefixes :: "IPv6Prefix list option"

datatype payload = JNull | JText string | JDoc AWSIpRangesResponse

text \<open>Truthiness, and the property reads on a value that is not \<open>null\<close>: a string
  has none of the properties.\<close>

fun truthy :: "payload \<Rightarrow> bool" where
  "truthy JNull = False"
| "truthy (JText s) = (s \<noteq> [])"
| "truthy (JDoc d) = True"

fun get_prefixes :: "payload \<Rightarrow> IPPrefix list option" where
  "get_prefixes (JDoc d) = prefixes d"
| "get_prefixes _ = None"

fun get_ipv6_prefixes :: "payload \<Rightarrow> IPv6Prefix list option" where
  "get_ipv6_prefixes (JDoc d) = ipv6_prefixes d"
| "get_ipv6_prefixes _ = None"

fun get_syncToken :: "payload \<Rightarrow> string option" where
  "get_syncToken (JDoc d) = syncToken d"
| "get_syncToken _ = None"

record RangeCount =
  ipv4 :: nat
  ipv6 :: nat

text \<open>\<open>ServiceIpRanges\<close>, as \<open>Omit<ServiceIpRanges, 'service'>\<close> extended by the
  service name.\<close>

record Ranges =
  ipv4_prefixes :: "string list"
  ipv6_prefixes_s :: "string list"
  count :: RangeCount

record ServiceIpRanges = Ranges +
  service_s :: string

record ServicesListResponse =
  services :: "string list"
  syncToken_l :: string
  lastUpdated_l :: string

record RegionsListResponse =
  regions :: "string list"
  syncToken_r :: string
  lastUpdated_r :: string

record AllServicesIpRanges =
  syncToken_a :: string
  lastUpdated_a :: string
  services_a :: "(string \<times> Ranges) list"

record IpSearchMatch =
  service_m :: string
  region_m :: string
  prefix_m :: string
  network_border_group_m :: string

record IpSearchResult =
  ip :: string
  found :: bool
  matches :: "IpSearchMatch list"

text \<open>
  The three cached fields of \<open>IpRangesService\<close>. \<open>lastUpdated\<close> holds the date as the
  text \<open>toISOString\<close> gives for it. A \<open>Map\<close> is an association list in insertion
  order with one pair per key; a \<open>Set\<close> is a list in insertion order without
  repetition.
\<close>

record service_state =
  ipRangesData :: payload
  serviceIpRangesMap :: "(string \<times> ServiceIpRanges) list"
  lastUpdated :: "string option"

definition initial_state :: service_state where
  "initial_state = \<lparr>ipRangesData = JNull, serviceIpRangesMap = [], lastUpdated = None\<rparr>"

definition map_has :: "('k \<times> 'v) list \<Rightarrow> 'k \<Rightarrow> bool" where
  "map_has m k = (map_of m k \<noteq> None)"

text \<open>\<open>m.set(k, v)\<close>: replace the value of a key that is there, in its place, or add
  the pair at the end.\<close>

fun map_set :: "'k \<Rightarrow> 'v \<Rightarrow> ('k \<times> 'v) list \<Rightarrow> ('k \<times> 'v) list" where
  "map_set k v [] = [(k, v)]"
| "map_set k v (p # ps) = (if fst p = k then (k, v) # ps else p # map_set k v ps)"

text \<open>A change made to the object stored under \<open>k\<close>, as \<open>m.get(k)!.ipv4.add(x)\<close> makes.\<close>

definition map_modify :: "'k \<Rightarrow> ('v \<Rightarrow> 'v) \<Rightarrow> ('k \<times> 'v) list \<Rightarrow> ('k \<times> 'v) list" where
  "map_modify k f m = map (\<lambda>(k', v). if k' = k then (k', f v) else (k', v)) m"

definition set_add :: "'a list \<Rightarrow> 'a \<Rightarrow> 'a list" where
  "set_add xs x = (if x \<in> set xs then xs else xs @ [x])"

section \<open>Refresh\<close>

text \<open>One round of each loop of \<open>groupByService\<close> over the local \<open>serviceMap\<close>, whose
  values are the pairs of the IPv4 and the IPv6 set.\<close>

definition add_ipv4 ::
  "(string \<times> string list \<times> string list) list \<Rightarrow> IPPrefix
   \<Rightarrow> (string \<times> string list \<times> string list) list" where
  "add_ipv4 serviceMap p =
     map_modify (service p) (\<lambda>(s4, s6). (set_add s4 (ip_prefix p), s6))
       (if \<not> map_has serviceMap (service p) then map_set (service p) ([], []) serviceMap
        else serviceMap)"

definition add_ipv6 ::
  "(string \<times> string list \<times> string list) list \<Rightarrow> IPv6Prefix
   \<Rightarrow> (string \<times> string list \<times> string list) list" where
  "add_ipv6 serviceMap p =
     map_modify (service6 p) (\<lambda>(s4, s6). (s4, set_add s6 (ipv6_prefix p)))
       (if \<not> map_has serviceMap (service6 p) then map_set (service6 p) ([], []) serviceMap
        else serviceMap)"

definition to_ranges :: "string \<Rightarrow> string list \<times> string list \<Rightarrow> ServiceIpRanges" where
  "to_ranges svc r =
     \<lparr>ipv4_prefixes = fst r, ipv6_prefixes_s = snd r,
      count = \<lparr>ipv4 = length (fst r), ipv6 = length (snd r)\<rparr>, service_s = svc\<rparr>"

text \<open>
  \<open>groupByService\<close>: nothing for a falsy \<open>ipRangesData\<close>; iterating \<open>prefixes\<close> that
  is \<open>undefined\<close> throws a \<open>TypeError\<close>, before the cached map is touched; otherwise
  the cached map is cleared and refilled from \<open>serviceMap\<close>.
\<close>

definition groupByService :: "service_state \<Rightarrow> error + service_state" where
  "groupByService st =
     (if \<not> truthy (ipRangesData st) then Inr st
      else case get_prefixes (ipRangesData st) of
             None \<Rightarrow> Inl TypeError
           | Some ps \<Rightarrow>
               (let m4 = foldl add_ipv4 [] ps;
                    serviceMap = (case get_ipv6_prefixes (ipRangesData st) of
                                    None \<Rightarrow> m4
                                  | Some qs \<Rightarrow> foldl add_ipv6 m4 qs)
                in Inr (st\<lparr>serviceIpRangesMap :=
                     foldl (\<lambda>m (svc, r). map_set svc (to_ranges svc r) m) [] serviceMap\<rparr>)))"

text \<open>What the HTTP request gives: it fails (network, timeout, status), or it delivers a
  body. What \<open>fetchIpRanges\<close> logs: the success line with sync token, number of
  services and of IPv4 and IPv6 prefixes, or the error line of the \<open>catch\<close>.\<close>

datatype http_result = HttpError | HttpOk payload

datatype log_line = Fetched "string option" nat nat nat | Failed

text \<open>The arguments of the success line; reading a property of \<open>null\<close> or the
  \<open>length\<close> of \<open>undefined\<close> throws.\<close>

definition success_line :: "service_state \<Rightarrow> error + log_line" where
  "success_line st =
     (case ipRangesData st of
        JNull \<Rightarrow> Inl TypeError
      | d \<Rightarrow> (case get_prefixes d of
                None \<Rightarrow> Inl TypeError
              | Some ps \<Rightarrow>
                  Inr (Fetched (get_syncToken d) (length (serviceIpRangesMap st)) (length ps)
                         (case get_ipv6_prefixes d of None \<Rightarrow> 0 | Some qs \<Rightarrow> length qs))))"

text \<open>
  \<open>fetchIpRanges\<close>, given the outcome of the request and the time: the body and the
  time are stored first, then \<open>groupByService\<close> runs and the success line is written;
  whatever is thrown on the way is caught and logged.
\<close>

definition fetchIpRanges :: "service_state \<Rightarrow> string \<Rightarrow> http_result \<Rightarrow> service_state \<times> log_line" where
  "fetchIpRanges st now res =
     (case res of
        HttpError \<Rightarrow> (st, Failed)
      | HttpOk d \<Rightarrow>
          (let st1 = st\<lparr>ipRangesData := d, lastUpdated := Some now\<rparr>
           in case groupByService st1 of
                Inl e \<Rightarrow> (st1, Failed)
              | Inr st2 \<Rightarrow>
                  (case success_line st2 of
                     Inl e \<Rightarrow> (st2, Failed)
                   | Inr l \<Rightarrow> (st2, l))))"

definition onModuleInit :: "service_state \<Rightarrow> string \<Rightarrow> http_result \<Rightarrow> service_state \<times> log_line" where
  "onModuleInit st now res = fetchIpRanges st now res"

definition handleCron :: "service_state \<Rightarrow> string \<Rightarrow> http_result \<Rightarrow> service_state \<times> log_line" where
  "handleCron st now res = fetchIpRanges st now res"

text \<open>The states the service can be in: the initial one, and what a refresh makes of
  one of them.\<close>

inductive reachable :: "service_state \<Rightarrow> bool" where
  start: "reachable initial_state"
| refresh: "reachable st \<Longrightarrow> reachable (fst (fetchIpRanges st now res))"

section \<open>Queries\<close>

definition isDataLoaded :: "service_state \<Rightarrow> bool" where
  "isDataLoaded st = (ipRangesData st \<noteq> JNull)"

text \<open>\<open>this.ipRangesData?.syncToken || ''\<close> and \<open>this.lastUpdated?.toISOString() || ''\<close>.\<close>

definition syncToken_text :: "service_state \<Rightarrow> string" where
  "syncToken_text st = (case get_syncToken (ipRangesData st) of None \<Rightarrow> [] | Some t \<Rightarrow> t)"

definition lastUpdated_text :: "service_state \<Rightarrow> string" where
  "lastUpdated_text st = (case lastUpdated st of None \<Rightarrow> [] | Some t \<Rightarrow> t)"

definition getServices :: "service_state \<Rightarrow> ServicesListResponse" where
  "getServices st =
     \<lparr>services = sort (map fst (serviceIpRangesMap st)),
      syncToken_l = syncToken_text st, lastUpdated_l = lastUpdated_text st\<rparr>"

definition getRegions :: "service_state \<Rightarrow> error + RegionsListResponse" where
  "getRegions st =
     (let answer = (\<lambda>regionSet.
            \<lparr>regions = sort regionSet, syncToken_r = syncToken_text st,
             lastUpdated_r = lastUpdated_text st\<rparr>)
      in if truthy (ipRangesData st) then
           (case get_prefixes (ipRangesData st) of
              None \<Rightarrow> Inl TypeError
            | Some ps \<Rightarrow>
                (let s4 = foldl (\<lambda>regionSet p. set_add regionSet (region p)) [] ps
                 in case get_ipv6_prefixes (ipRangesData st) of
                      None \<Rightarrow> Inr (answer s4)
                    | Some qs \<Rightarrow>
                        Inr (answer (foldl (\<lambda>regionSet p. set_add regionSet (region6 p)) s4 qs))))
         else Inr (answer []))"

text \<open>\<open>filterByServiceAndRegion\<close>; \<open>service\<close> arrives in upper case from both callers.\<close>

definition filterByServiceAndRegion ::
  "service_state \<Rightarrow> string \<Rightarrow> string \<Rightarrow> error + ServiceIpRanges option" where
  "filterByServiceAndRegion st svc reg =
     (if \<not> truthy (ipRangesData st) then Inr None
      else case get_prefixes (ipRangesData st) of
             None \<Rightarrow> Inl TypeError
           | Some ps \<Rightarrow>
               (let upperRegion = toUpperCase reg;
                    ipv4Prefixes = map ip_prefix (filter (\<lambda>p. toUpperCase (service p) = svc
                                       \<and> toUpperCase (region p) = upperRegion) ps);
                    ipv6Prefixes = (case get_ipv6_prefixes (ipRangesData st) of
                                      None \<Rightarrow> []
                                    | Some qs \<Rightarrow>
                                        map ipv6_prefix (filter (\<lambda>p. toUpperCase (service6 p) = svc
                                          \<and> toUpperCase (region6 p) = upperRegion) qs))
                in if length ipv4Prefixes = 0 \<and> length ipv6Prefixes = 0 then Inr None
                   else Inr (Some \<lparr>ipv4_prefixes = ipv4Prefixes, ipv6_prefixes_s = ipv6Prefixes,
                                    count = \<lparr>ipv4 = length ipv4Prefixes, ipv6 = length ipv6Prefixes\<rparr>,
                                    service_s = svc\<rparr>)))"

text \<open>An optional string argument counts as given when it is neither \<open>undefined\<close> nor
  empty.\<close>

definition given :: "string option \<Rightarrow> bool" where
  "given r = (case r of None \<Rightarrow> False | Some t \<Rightarrow> t \<noteq> [])"

definition getServiceIpRanges ::
  "service_state \<Rightarrow> string \<Rightarrow> string option \<Rightarrow> error + ServiceIpRanges option" where
  "getServiceIpRanges st svc reg =
     (let upperService = toUpperCase svc
      in if given reg \<and> truthy (ipRangesData st)
         then filterByServiceAndRegion st upperService (case reg of None \<Rightarrow> [] | Some t \<Rightarrow> t)
         else Inr (map_option snd
                (find (\<lambda>(key, v). toUpperCase key = upperService) (serviceIpRangesMap st))))"

definition omit_service :: "ServiceIpRanges \<Rightarrow> Ranges" where
  "omit_service v =
     \<lparr>ipv4_prefixes = ipv4_prefixes v, ipv6_prefixes_s = ipv6_prefixes_s v, count = count v\<rparr>"

text \<open>
  The plain object \<open>services\<close> of \<open>getAllServiceIpRanges\<close>, as the list of its own
  properties. \<open>services[k] = v\<close> with the key \<open>__proto__\<close> runs the inherited setter,
  which replaces the prototype and adds no property; every other key is set as in a
  map. The own properties of an object are enumerated with the array indices first
  (the decimal numerals of 0 to \<open>2 ** 32 - 2\<close>, without leading zeros), in ascending
  order, and the other keys after them in the order in which they were added.
\<close>

definition obj_set :: "string \<Rightarrow> 'v \<Rightarrow> (string \<times> 'v) list \<Rightarrow> (string \<times> 'v) list" where
  "obj_set k v m = (if k = ''__proto__'' then m else map_set k v m)"

definition index_of :: "string \<Rightarrow> int" where
  "index_of k = foldl (\<lambda>n c. 10 * n + (of_char c - 48)) 0 k"

definition is_array_index :: "string \<Rightarrow> bool" where
  "is_array_index k =
     (if k \<noteq> [] \<and> list_all (\<lambda>c. CHR ''0'' \<le> c \<and> c \<le> CHR ''9'') k
         \<and> (k = ''0'' \<or> CHR ''1'' \<le> hd k)
      then index_of k < 4294967295 else False)"

definition own_properties :: "(string \<times> 'v) list \<Rightarrow> (string \<times> 'v) list" where
  "own_properties m =
     sort_key (\<lambda>(k, v). index_of k) (filter (\<lambda>(k, v). is_array_index k) m)
     @ filter (\<lambda>(k, v). \<not> is_array_index k) m"

text \<open>The loop of \<open>getAllServiceIpRanges\<close> under a region filter, over the keys of the
  cached map; an error thrown by the filter ends it.\<close>

fun filter_all ::
  "service_state \<Rightarrow> string \<Rightarrow> string list \<Rightarrow> (string \<times> Ranges) list
   \<Rightarrow> error + (string \<times> Ranges) list" where
  "filter_all st reg [] acc = Inr acc"
| "filter_all st reg (serviceName # rest) acc =
     (case filterByServiceAndRegion st (toUpperCase serviceName) reg of
        Inl e \<Rightarrow> Inl e
      | Inr None \<Rightarrow> filter_all st reg rest acc
      | Inr (Some filtered) \<Rightarrow>
          (if ipv4 (count filtered) > 0 \<or> ipv6 (count filtered) > 0
           then filter_all st reg rest (obj_set serviceName (omit_service filtered) acc)
           else filter_all st reg rest acc))"

definition getAllServiceIpRanges ::
  "service_state \<Rightarrow> string option \<Rightarrow> error + AllServicesIpRanges" where
  "getAllServiceIpRanges st reg =
     (let answer = (\<lambda>svcs. \<lparr>syncToken_a = syncToken_text st,
                              lastUpdated_a = lastUpdated_text st,
                              services_a = own_properties svcs\<rparr>)
      in if given reg \<and> truthy (ipRangesData st)
         then (case filter_all st (case reg of None \<Rightarrow> [] | Some t \<Rightarrow> t)
                      (map fst (serviceIpRangesMap st)) [] of
                 Inl e \<Rightarrow> Inl e
               | Inr svcs \<Rightarrow> Inr (answer svcs))
         else Inr (answer (foldl (\<lambda>acc (serviceName, ranges).
                              obj_set serviceName (omit_service ranges) acc)
                            [] (serviceIpRangesMap st))))"

text \<open>The IPv6 loop of \<open>searchByIp\<close>; \<open>isIpv6InCidr\<close> may throw.\<close>

fun search_ipv6 ::
  "string \<Rightarrow> IPv6Prefix list \<Rightarrow> IpSearchMatch list \<Rightarrow> error + IpSearchMatch list" where
  "search_ipv6 addr [] acc = Inr acc"
| "search_ipv6 addr (p # ps) acc =
     (case isIpv6InCidr addr (ipv6_prefix p) of
        Inl e \<Rightarrow> Inl e
      | Inr hit \<Rightarrow>
          search_ipv6 addr ps
            (if hit then acc @ [\<lparr>service_m = service6 p, region_m = region6 p,
                                 prefix_m = ipv6_prefix p,
                                 network_border_group_m = network_border_group6 p\<rparr>]
             else acc))"

definition search_ipv4 :: "string \<Rightarrow> IPPrefix list \<Rightarrow> IpSearchMatch list" where
  "search_ipv4 addr ps =
     map (\<lambda>p. \<lparr>service_m = service p, region_m = region p, prefix_m = ip_prefix p,
                network_border_group_m = network_border_group p\<rparr>)
       (filter (\<lambda>p. isIpv4InCidr addr (ip_prefix p)) ps)"

definition searchByIp :: "service_state \<Rightarrow> string \<Rightarrow> error + IpSearchResult" where
  "searchByIp st addr =
     (let answer = (\<lambda>ms. \<lparr>ip = addr, found = (length ms > 0), matches = ms\<rparr>)
      in if \<not> truthy (ipRangesData st) then Inr \<lparr>ip = addr, found = False, matches = []\<rparr>
         else if str_includes addr '':'' then
           (case get_ipv6_prefixes (ipRangesData st) of
              None \<Rightarrow> Inr (answer [])
            | Some qs \<Rightarrow>
                (case search_ipv6 addr qs [] of Inl e \<Rightarrow> Inl e | Inr ms \<Rightarrow> Inr (answer ms)))
         else (case get_prefixes (ipRangesData st) of
                 None \<Rightarrow> Inl TypeError
               | Some ps \<Rightarrow> Inr (answer (search_ipv4 addr ps))))"

section \<open>The controller\<close>

text \<open>The endpoints of \<open>IpRangesController\<close>: each calls \<open>ensureDataLoaded\<close> first. An
  error thrown by the service leaves the handler uncaught.\<close>

datatype http_exception = ServiceUnavailableException | NotFoundException | Uncaught error

definition ensureDataLoaded :: "service_state \<Rightarrow> http_exception + unit" where
  "ensureDataLoaded st = (if \<not> isDataLoaded st then Inl ServiceUnavailableException else Inr ())"

definition controller_getServices :: "service_state \<Rightarrow> http_exception + ServicesListResponse" where
  "controller_getServices st =
     (case ensureDataLoaded st of Inl x \<Rightarrow> Inl x | Inr _ \<Rightarrow> Inr (getServices st))"

definition controller_getRegions :: "service_state \<Rightarrow> http_exception + RegionsListResponse" where
  "controller_getRegions st =
     (case ensureDataLoaded st of
        Inl x \<Rightarrow> Inl x
      | Inr _ \<Rightarrow> (case getRegions st of Inl e \<Rightarrow> Inl (Uncaught e) | Inr r \<Rightarrow> Inr r))"

definition controller_getAllIpRanges ::
  "service_state \<Rightarrow> string option \<Rightarrow> http_exception + AllServicesIpRanges" where
  "controller_getAllIpRanges st reg =
     (case ensureDataLoaded st of
        Inl x \<Rightarrow> Inl x
      | Inr _ \<Rightarrow> (case getAllServiceIpRanges st reg of Inl e \<Rightarrow> Inl (Uncaught e) | Inr r \<Rightarrow> Inr r))"

definition controller_getServiceIpRanges ::
  "service_state \<Rightarrow> string \<Rightarrow> string option \<Rightarrow> http_exception + ServiceIpRanges" where
  "controller_getServiceIpRanges st svc reg =
     (case ensureDataLoaded st of
        Inl x \<Rightarrow> Inl x
      | Inr _ \<Rightarrow>
          (case getServiceIpRanges st svc reg of
             Inl e \<Rightarrow> Inl (Uncaught e)
           | Inr None \<Rightarrow> Inl NotFoundException
           | Inr (Some r) \<Rightarrow> Inr r))"

section \<open>Addresses as fixed-width integers\<close>

text \<open>
  What a well-formed address means, stated apart from the service's code: a dotted
  IPv4 literal is four decimal octets and denotes the 32-bit integer with those bytes;
  an IPv6 literal is eight groups of one to four hexadecimal digits, where one \<open>::\<close>
  may stand for one or more zero groups, and denotes the 128-bit integer with those
  groups; its last two groups may also be written as a dotted IPv4 literal, which then
  gives the low 32 bits. A CIDR block is such an address, a slash and a decimal prefix
  length within the width. Two integers share their top \<open>p\<close> bits when shifting both
  right by the remaining bits gives the same value.
\<close>

definition is_dec :: "string \<Rightarrow> bool" where
  "is_dec s = (s \<noteq> [] \<and> list_all (\<lambda>c. CHR ''0'' \<le> c \<and> c \<le> CHR ''9'') s)"

definition dec_value :: "string \<Rightarrow> nat" where
  "dec_value s = foldl (\<lambda>acc c. 10 * acc + (of_char c - 48)) 0 s"

definition is_octet :: "string \<Rightarrow> bool" where
  "is_octet s = (is_dec s \<and> dec_value s \<le> 255)"

definition valid_ipv4 :: "string \<Rightarrow> bool" where
  "valid_ipv4 s = (case str_split ''.'' s of [a, b, c, d] \<Rightarrow> list_all is_octet [a, b, c, d] | _ \<Rightarrow> False)"

definition ipv4_value :: "string \<Rightarrow> 32 word" where
  "ipv4_value s =
     word_of_nat (foldl (\<lambda>acc g. acc * 256 + dec_value g) 0 (str_split ''.'' s))"

definition is_hex_char :: "char \<Rightarrow> bool" where
  "is_hex_char c =
     ((CHR ''0'' \<le> c \<and> c \<le> CHR ''9'') \<or> (CHR ''a'' \<le> c \<and> c \<le> CHR ''f'')
      \<or> (CHR ''A'' \<le> c \<and> c \<le> CHR ''F''))"

definition hex_char_value :: "char \<Rightarrow> nat" where
  "hex_char_value c =
     (if c \<le> CHR ''9'' then of_char c - 48
      else if c \<le> CHR ''F'' then of_char c - 55
      else of_char c - 87)"

definition hex_value :: "string \<Rightarrow> nat" where
  "hex_value s = foldl (\<lambda>acc c. 16 * acc + hex_char_value c) 0 s"

definition is_group :: "string \<Rightarrow> bool" where
  "is_group g = (g \<noteq> [] \<and> length g \<le> 4 \<and> list_all is_hex_char g)"

text \<open>The eight groups of an IPv6 literal, with the \<open>::\<close> written out.\<close>

definition ipv6_groups :: "string \<Rightarrow> string list option" where
  "ipv6_groups s =
     (if str_includes s ''::'' then
        (case str_split ''::'' s of
           [l, r] \<Rightarrow>
             (let left = (if l = [] then [] else str_split '':'' l);
                  right = (if r = [] then [] else str_split '':'' r)
              in if length left + length right \<le> 7
                 then Some (left @ replicate (8 - (length left + length right)) ''0'' @ right)
                 else None)
         | _ \<Rightarrow> None)
      else (let gs = str_split '':'' s in if length gs = 8 then Some gs else None))"

definition valid_ipv6_hex :: "string \<Rightarrow> bool" where
  "valid_ipv6_hex s =
     (case ipv6_groups s of None \<Rightarrow> False | Some gs \<Rightarrow> list_all is_group gs)"

text \<open>The seven fields of an IPv6 literal that ends in a dotted IPv4 literal: six
  groups, with the \<open>::\<close> written out, and the dotted part.\<close>

definition ipv6_quad_fields :: "string \<Rightarrow> string list option" where
  "ipv6_quad_fields s =
     (if str_includes s ''::'' then
        (case str_split ''::'' s of
           [l, r] \<Rightarrow>
             (let left = (if l = [] then [] else str_split '':'' l);
                  right = (if r = [] then [] else str_split '':'' r)
              in if length left + length right \<le> 6 \<and> right \<noteq> []
                 then Some (left @ replicate (7 - (length left + length right)) ''0'' @ right)
                 else None)
         | _ \<Rightarrow> None)
      else (let gs = str_split '':'' s in if length gs = 7 then Some gs else None))"

definition valid_ipv6_quad :: "string \<Rightarrow> bool" where
  "valid_ipv6_quad s =
     (case ipv6_quad_fields s of
        None \<Rightarrow> False
      | Some fs \<Rightarrow> list_all is_group (butlast fs) \<and> valid_ipv4 (last fs))"

definition valid_ipv6 :: "string \<Rightarrow> bool" where
  "valid_ipv6 s = (valid_ipv6_hex s \<or> valid_ipv6_quad s)"

definition ipv6_value :: "string \<Rightarrow> 128 word" where
  "ipv6_value s =
     (if valid_ipv6_hex s then
        (case ipv6_groups s of
           None \<Rightarrow> 0
         | Some gs \<Rightarrow> word_of_nat (foldl (\<lambda>acc g. acc * 65536 + hex_value g) 0 gs))
      else
        (case ipv6_quad_fields s of
           None \<Rightarrow> 0
         | Some fs \<Rightarrow>
             word_of_nat
               (foldl (\<lambda>acc g. acc * 65536 + hex_value g) 0 (butlast fs) * 4294967296
                + unat (ipv4_value (last fs)))))"

text \<open>Text of one to three decimal octets between dots, an IPv4 literal cut short, and
  the 32-bit integer it denotes once zero octets are appended.\<close>

definition short_dotted :: "string \<Rightarrow> bool" where
  "short_dotted s = (length (str_split ''.'' s) \<le> 3 \<and> list_all is_octet (str_split ''.'' s))"

definition zero_padded_value :: "string \<Rightarrow> 32 word" where
  "zero_padded_value s =
     word_of_nat (foldl (\<lambda>acc g. acc * 256 + g) 0
                    (take 4 (map dec_value (str_split ''.'' s) @ replicate 4 0)))"

text \<open>A CIDR text as base address and prefix length.\<close>

definition cidr_base :: "string \<Rightarrow> string" where
  "cidr_base c = takeWhile (\<lambda>x. x \<noteq> CHR ''/'') c"

definition cidr_bits :: "string \<Rightarrow> string" where
  "cidr_bits c = drop 1 (dropWhile (\<lambda>x. x \<noteq> CHR ''/'') c)"

definition cidr_length :: "string \<Rightarrow> nat" where
  "cidr_length c = dec_value (cidr_bits c)"

definition valid_ipv4_cidr :: "string \<Rightarrow> bool" where
  "valid_ipv4_cidr c =
     (valid_ipv4 (cidr_base c) \<and> is_dec (cidr_bits c) \<and> cidr_length c \<le> 32)"

definition valid_ipv6_hex_cidr :: "string \<Rightarrow> bool" where
  "valid_ipv6_hex_cidr c =
     (valid_ipv6_hex (cidr_base c) \<and> is_dec (cidr_bits c) \<and> cidr_length c \<le> 128)"

definition valid_ipv6_cidr :: "string \<Rightarrow> bool" where
  "valid_ipv6_cidr c =
     (valid_ipv6 (cidr_base c) \<and> is_dec (cidr_bits c) \<and> cidr_length c \<le> 128)"

definition share_top_bits :: "nat \<Rightarrow> 'a::len word \<Rightarrow> 'a word \<Rightarrow> bool" where
  "share_top_bits p a b = (drop_bit (LENGTH('a) - p) a = drop_bit (LENGTH('a) - p) b)"

text \<open>The \<open>w\<close> low bits of \<open>n\<close> as text, most significant first: the form the proofs
  give the binary strings of \<open>ipv6ToBinary\<close>.\<close>

fun bin_fixed :: "nat \<Rightarrow> nat \<Rightarrow> string" where
  "bin_fixed 0 n = []"
| "bin_fixed (Suc w) n = bin_fixed w (n div 2) @ [if n mod 2 = 0 then CHR ''0'' else CHR ''1'']"

section \<open>Example datasets\<close>

text \<open>Small documents on which the statements below are evaluated: one record; the
  same record twice; two services whose names differ in case only, in a named region
  and in a region that is the empty string; and a body without the prefix lists.\<close>

definition one_record :: AWSIpRangesResponse where
  "one_record =
     \<lparr>syncToken = Some ''7'',
      prefixes = Some [\<lparr>ip_prefix = ''1.2.3.0/24'', region = ''r1'', service = ''EC2'',
                        network_border_group = ''r1''\<rparr>],
      ipv6_prefixes = Some []\<rparr>"

definition duplicate_records :: AWSIpRangesResponse where
  "duplicate_records =
     \<lparr>syncToken = Some ''7'',
      prefixes = Some [\<lparr>ip_prefix = ''1.2.3.0/24'', region = ''r1'', service = ''EC2'',
                        network_border_group = ''r1''\<rparr>,
                       \<lparr>ip_prefix = ''1.2.3.0/24'', region = ''r1'', service = ''EC2'',
                        network_border_group = ''r1''\<rparr>],
      ipv6_prefixes = Some []\<rparr>"


definition no_prefix_lists :: AWSIpRangesResponse where
  "no_prefix_lists = \<lparr>syncToken = None, prefixes = None, ipv6_prefixes = None\<rparr>"

text \<open>The state after the first refresh delivered the document.\<close>

definition loaded :: "AWSIpRangesResponse \<Rightarrow> service_state" where
  "loaded d = fst (fetchIpRanges initial_state ''t1'' (HttpOk (JDoc d)))"

section \<open>Notions the statements use\<close>

text \<open>The records of the cached dataset, and the map \<open>groupByService\<close> builds from the
  two lists.\<close>

definition records4 :: "service_state \<Rightarrow> IPPrefix list" where
  "records4 st = (case get_prefixes (ipRangesData st) of None \<Rightarrow> [] | Some ps \<Rightarrow> ps)"

definition records6 :: "service_state \<Rightarrow> IPv6Prefix list" where
  "records6 st = (case get_ipv6_prefixes (ipRangesData st) of None \<Rightarrow> [] | Some qs \<Rightarrow> qs)"

definition service_map ::
  "IPPrefix list \<Rightarrow> IPv6Prefix list \<Rightarrow> (string \<times> string list \<times> string list) list" where
  "service_map ps qs = foldl add_ipv6 (foldl add_ipv4 [] ps) qs"

definition cache_of :: "IPPrefix list \<Rightarrow> IPv6Prefix list \<Rightarrow> (string \<times> ServiceIpRanges) list" where
  "cache_of ps qs = foldl (\<lambda>m (svc, r). map_set svc (to_ranges svc r) m) [] (service_map ps qs)"

text \<open>The invariant of the returned ranges: the two counts are the lengths of the two
  lists.\<close>

definition counts_agree :: "'a Ranges_scheme \<Rightarrow> bool" where
  "counts_agree v =
     (ipv4 (count v) = length (ipv4_prefixes v) \<and> ipv6 (count v) = length (ipv6_prefixes_s v))"















section \<open>Containment compares the top bits\<close>

subsection \<open>Parsing decimal text\<close>

lemma dec_char_iff: "(CHR ''0'' \<le> c \<and> c \<le> CHR ''9'') = (48 \<le> (of_char c :: nat) \<and> (of_char c :: nat) \<le> 57)"
  by (simp add: less_eq_char_def)

lemma dec_char_digit_val:
  assumes "CHR ''0'' \<le> c \<and> c \<le> CHR ''9''"
  shows "digit_val c = Some (of_char c - 48)" and "\<not> is_ws c" and "is_digit 10 c" and "is_digit 16 c"
    and "c \<noteq> CHR ''-''" and "c \<noteq> CHR ''+''"
  using assms by (auto simp: digit_val_def is_ws_def is_digit_def less_eq_char_def)

lemma digits_value_dec_aux:
  "list_all (\<lambda>c. CHR ''0'' \<le> c \<and> c \<le> CHR ''9'') s \<Longrightarrow>
   foldl (\<lambda>acc c. acc * 10 + (case digit_val c of None \<Rightarrow> 0 | Some d \<Rightarrow> d)) a s
   = foldl (\<lambda>acc c. 10 * acc + (of_char c - 48)) a s"
  by (induction s arbitrary: a) (auto simp: dec_char_digit_val(1) mult.commute)

lemma takeWhile_all: "list_all P s \<Longrightarrow> takeWhile P s = s"
  by (induction s) auto

lemma parseInt_dec: "is_dec s \<Longrightarrow> parseInt s 10 = Num (int (dec_value s))"
proof -
  assume d: "is_dec s"
  then obtain c cs where s: "s = c # cs" by (cases s) (auto simp: is_dec_def)
  from d s have c: "CHR ''0'' \<le> c \<and> c \<le> CHR ''9''" and all: "list_all (\<lambda>c. CHR ''0'' \<le> c \<and> c \<le> CHR ''9'') s"
    by (auto simp: is_dec_def)
  have ws: "dropWhile is_ws s = s" using s dec_char_digit_val(2)[OF c] by simp
  have tw: "takeWhile (is_digit 10) s = s"
    by (rule takeWhile_all) (use all in \<open>auto simp: list_all_iff dec_char_digit_val(3)\<close>)
  have dv: "digits_value 10 s = dec_value s"
    unfolding digits_value_def dec_value_def by (rule digits_value_dec_aux[OF all])
  show ?thesis
    unfolding parseInt_def ws
    using s dec_char_digit_val(5,6)[OF c] tw dv by (simp add: Let_def)
qed

lemma push_or_take:
  fixes x z :: "'a::len word"
  shows "push_bit n x OR take_bit n z = push_bit n x + take_bit n z"
proof -
  have "push_bit n x AND take_bit n z = 0"
    by (rule bit_eqI) (auto simp: bit_simps)
  then show ?thesis by (simp add: disjunctive_add_eq_or)
qed

lemma word_of_nat_small:
  "d < 2 ^ n \<Longrightarrow> take_bit n (word_of_nat d :: 'a::len word) = word_of_nat d"
  by (simp add: of_nat_take_bit [symmetric] take_bit_nat_eq_self del: of_nat_take_bit)

lemma push_or_add:
  fixes x :: "'a::len word"
  assumes "d < 2 ^ n"
  shows "push_bit n x OR word_of_nat d = x * 2 ^ n + word_of_nat d"
  using push_or_take [of n x "word_of_nat d"]
  by (simp add: word_of_nat_small [OF assms] push_bit_eq_mult)

lemma bytes_or:
  assumes "B < 256" "C < 256" "D < 256"
  shows "push_bit 24 (word_of_nat A) OR push_bit 16 (word_of_nat B) OR push_bit 8 (word_of_nat C)
           OR word_of_nat D
         = (word_of_nat (((A * 256 + B) * 256 + C) * 256 + D) :: 32 word)"
proof -
  let ?a = "word_of_nat A :: 32 word"
  have 1: "push_bit 8 ?a OR word_of_nat B = ?a * 2 ^ 8 + word_of_nat B"
    by (rule push_or_add) (use assms in simp)
  have 2: "push_bit 8 (?a * 2 ^ 8 + word_of_nat B) OR word_of_nat C
           = (?a * 2 ^ 8 + word_of_nat B) * 2 ^ 8 + word_of_nat C"
    by (rule push_or_add) (use assms in simp)
  have 3: "push_bit 8 ((?a * 2 ^ 8 + word_of_nat B) * 2 ^ 8 + word_of_nat C) OR word_of_nat D
           = ((?a * 2 ^ 8 + word_of_nat B) * 2 ^ 8 + word_of_nat C) * 2 ^ 8 + word_of_nat D"
    by (rule push_or_add) (use assms in simp)
  have "push_bit 24 ?a OR push_bit 16 (word_of_nat B) OR push_bit 8 (word_of_nat C) OR word_of_nat D
        = push_bit 8 (push_bit 8 (push_bit 8 ?a OR word_of_nat B) OR word_of_nat C) OR word_of_nat D"
    by (simp add: push_bit_or push_bit_push_bit ac_simps)
  also have "\<dots> = ((?a * 2 ^ 8 + word_of_nat B) * 2 ^ 8 + word_of_nat C) * 2 ^ 8 + word_of_nat D"
    by (simp only: 1 2 3)
  finally show ?thesis by simp
qed

lemma and_not_mask_eq_iff:
  fixes a b :: "'a::len word"
  shows "(a AND NOT (mask n) = b AND NOT (mask n)) = (drop_bit n a = drop_bit n b)"
proof
  assume h: "a AND NOT (mask n) = b AND NOT (mask n)"
  show "drop_bit n a = drop_bit n b"
  proof (rule bit_eqI)
    fix k
    from h have "bit (a AND NOT (mask n)) (n + k) = bit (b AND NOT (mask n)) (n + k)" by simp
    then show "bit (drop_bit n a) k = bit (drop_bit n b) k"
      by (auto simp: bit_simps dest: bit_imp_le_length)
  qed
next
  assume h: "drop_bit n a = drop_bit n b"
  show "a AND NOT (mask n) = b AND NOT (mask n)"
  proof (rule bit_eqI)
    fix k
    from h have "bit (drop_bit n a) (k - n) = bit (drop_bit n b) (k - n)" by simp
    then show "bit (a AND NOT (mask n)) k = bit (b AND NOT (mask n)) k"
      by (auto simp: bit_simps)
  qed
qed

lemma str_split_no_sep: "ch \<notin> set y \<Longrightarrow> str_split [ch] y = [y]"
  by (induction y) (auto split: list.splits)

lemma str_split_at_sep:
  "ch \<notin> set x \<Longrightarrow> str_split [ch] (x @ ch # y) = x # str_split [ch] y"
  by (induction x) (auto split: list.splits)

lemma dec_no_slash: "is_dec s \<Longrightarrow> CHR ''/'' \<notin> set s"
  by (auto simp: is_dec_def list_all_iff less_eq_char_def)

lemma cidr_split:
  assumes "is_dec (cidr_bits c)"
  shows "str_split ''/'' c = [cidr_base c, cidr_bits c]"
proof -
  let ?d = "dropWhile (\<lambda>x. x \<noteq> CHR ''/'') c"
  from assms have "cidr_bits c \<noteq> []" by (simp add: is_dec_def)
  then have ne: "?d \<noteq> []" unfolding cidr_bits_def by (cases ?d) auto
  then have hd: "hd ?d = CHR ''/''" using hd_dropWhile by (metis (mono_tags, lifting))
  with ne have d: "?d = CHR ''/'' # cidr_bits c" unfolding cidr_bits_def by (cases ?d) auto
  have c: "c = cidr_base c @ CHR ''/'' # cidr_bits c"
    unfolding cidr_base_def using d by (metis takeWhile_dropWhile_id)
  have nb: "CHR ''/'' \<notin> set (cidr_base c)"
    unfolding cidr_base_def by (auto dest: set_takeWhileD)
  have "str_split ''/'' (cidr_base c @ CHR ''/'' # cidr_bits c) = cidr_base c # str_split ''/'' (cidr_bits c)"
    by (rule str_split_at_sep[OF nb])
  also have "str_split ''/'' (cidr_bits c) = [cidr_bits c]"
    by (rule str_split_no_sep[OF dec_no_slash[OF assms]])
  finally show ?thesis using c by simp
qed

lemma ipv4ToNumber_valid:
  assumes "valid_ipv4 s"
  shows "ipv4ToNumber s = Num (uint (ipv4_value s))"
proof -
  from assms obtain a b c d where sp: "str_split ''.'' s = [a, b, c, d]"
    and oc: "is_octet a" "is_octet b" "is_octet c" "is_octet d"
    by (auto simp: valid_ipv4_def split: list.splits)
  have p: "parseInt a 10 = Num (int (dec_value a))" "parseInt b 10 = Num (int (dec_value b))"
    "parseInt c 10 = Num (int (dec_value c))" "parseInt d 10 = Num (int (dec_value d))"
    using oc by (auto simp: is_octet_def parseInt_dec)
  have "push_bit 24 (word_of_nat (dec_value a)) OR push_bit 16 (word_of_nat (dec_value b))
          OR push_bit 8 (word_of_nat (dec_value c)) OR word_of_nat (dec_value d)
        = (word_of_nat (((dec_value a * 256 + dec_value b) * 256 + dec_value c) * 256 + dec_value d) :: 32 word)"
    by (rule bytes_or) (use oc in \<open>auto simp: is_octet_def\<close>)
  then show ?thesis
    by (simp add: ipv4ToNumber_def ipv4_value_def sp p at_index_def toInt32_def)
qed

lemma cidr_mask_valid:
  assumes "p \<le> 32"
  shows "cidr_mask (Num (int p)) = NOT (mask (32 - p))"
proof -
  have "nat (32 - int p) = 32 - p" using assms by simp
  then show ?thesis using assms by (simp add: cidr_mask_def Let_def mask_eq_exp_minus_1)
qed

lemma isIpv4InCidr_valid:
  assumes "valid_ipv4 a" "valid_ipv4_cidr c"
  shows "isIpv4InCidr a c = share_top_bits (cidr_length c) (ipv4_value a) (ipv4_value (cidr_base c))"
proof -
  from assms(2) have vb: "valid_ipv4 (cidr_base c)" and dl: "is_dec (cidr_bits c)" and le: "cidr_length c \<le> 32"
    by (auto simp: valid_ipv4_cidr_def)
  have sp: "str_split ''/'' c = [cidr_base c, cidr_bits c]" by (rule cidr_split[OF dl])
  have pl: "parseInt (cidr_bits c) 10 = Num (int (cidr_length c))"
    using parseInt_dec[OF dl] by (simp add: cidr_length_def)
  show ?thesis
    by (simp add: isIpv4InCidr_def sp at_index_def parseInt_opt_def pl cidr_mask_valid[OF le]
        ipv4ToNumber_valid[OF assms(1)] ipv4ToNumber_valid[OF vb] toInt32_def
        and_not_mask_eq_iff share_top_bits_def)
qed

lemma length_bin_fixed: "length (bin_fixed w n) = w"
  by (induction w arbitrary: n) auto

lemma bin_fixed_zero: "bin_fixed w 0 = replicate w CHR ''0''"
  by (induction w) (auto simp: replicate_append_same)

lemma padStart_snoc: "0 < w \<Longrightarrow> padStart w c (xs @ [d]) = padStart (w - 1) c xs @ [d]"
  by (cases w) (auto simp: padStart_def)

lemma pad_bin_digits: "n < 2 ^ w \<Longrightarrow> 0 < w \<Longrightarrow> padStart w CHR ''0'' (bin_digits n) = bin_fixed w n"
proof (induction w arbitrary: n)
  case 0
  then show ?case by simp
next
  case (Suc w)
  show ?case
  proof (cases "n < 2")
    case True
    then have "n div 2 = 0" by simp
    with True show ?thesis
      by (subst bin_digits.simps) (auto simp: padStart_def bin_fixed_zero)
  next
    case False
    with Suc.prems have w: "0 < w" by (cases w) auto
    from Suc.prems have "n div 2 < 2 ^ w" by auto
    from Suc.IH[OF this w] False show ?thesis
      by (subst bin_digits.simps) (simp add: padStart_snoc)
  qed
qed

lemma bin_fixed_append:
  "b < 2 ^ k \<Longrightarrow> bin_fixed (w + k) (a * 2 ^ k + b) = bin_fixed w a @ bin_fixed k b"
proof (induction k arbitrary: b)
  case 0
  then show ?case by simp
next
  case (Suc k)
  have r: "a * 2 ^ Suc k + b = b + 2 * (a * 2 ^ k)" by simp
  have d: "(a * 2 ^ Suc k + b) div 2 = a * 2 ^ k + b div 2" unfolding r by simp
  have m: "(a * 2 ^ Suc k + b) mod 2 = b mod 2" unfolding r by simp
  from Suc.prems have "b div 2 < 2 ^ k" by auto
  from Suc.IH[OF this] show ?case
    using d m by (simp del: power_Suc)
qed

lemma take_bin_fixed: "p \<le> w \<Longrightarrow> take p (bin_fixed w a) = bin_fixed p (a div 2 ^ (w - p))"
proof (induction w arbitrary: a)
  case 0
  then show ?case by simp
next
  case (Suc w)
  show ?case
  proof (cases "p \<le> w")
    case True
    have "Suc w - p = Suc (w - p)" using True by simp
    then have "a div 2 ^ (Suc w - p) = a div 2 div 2 ^ (w - p)"
      by (simp add: div_mult2_eq)
    with Suc.IH[OF True, of "a div 2"] True show ?thesis
      by (simp add: length_bin_fixed)
  next
    case False
    with Suc.prems have "p = Suc w" by simp
    then show ?thesis by (simp add: length_bin_fixed)
  qed
qed

lemma bin_fixed_eq_iff: "(bin_fixed p x = bin_fixed p y) = (x mod 2 ^ p = y mod 2 ^ p)"
proof (induction p arbitrary: x y)
  case 0
  then show ?case by simp
next
  case (Suc p)
  have e: "\<And>z::nat. z mod 2 ^ Suc p = 2 * (z div 2 mod 2 ^ p) + z mod 2"
    by (simp add: mod_mult2_eq)
  have "(bin_fixed (Suc p) x = bin_fixed (Suc p) y)
        = (bin_fixed p (x div 2) = bin_fixed p (y div 2) \<and> x mod 2 = y mod 2)"
    by auto
  also have "\<dots> = (x div 2 mod 2 ^ p = y div 2 mod 2 ^ p \<and> x mod 2 = y mod 2)"
    by (simp add: Suc.IH)
  also have "\<dots> = (x mod 2 ^ Suc p = y mod 2 ^ Suc p)"
  proof -
    have "\<And>u v r s::nat. r < 2 \<Longrightarrow> s < 2 \<Longrightarrow> (u = v \<and> r = s) = (2 * u + r = 2 * v + s)"
      by arith
    then show ?thesis unfolding e by simp
  qed
  finally show ?case .
qed

lemma take_bin_fixed_eq_iff:
  assumes "a < 2 ^ w" "b < 2 ^ w" "p \<le> w"
  shows "(take p (bin_fixed w a) = take p (bin_fixed w b)) = (a div 2 ^ (w - p) = b div 2 ^ (w - p))"
proof -
  have "\<And>z::nat. z < 2 ^ w \<Longrightarrow> z div 2 ^ (w - p) < 2 ^ p"
    using assms(3) by (simp add: less_mult_imp_div_less power_add [symmetric])
  then show ?thesis using assms
    by (simp add: take_bin_fixed bin_fixed_eq_iff)
qed

lemma hex_char_facts:
  assumes "is_hex_char c"
  shows "digit_val c = Some (hex_char_value c)" and "hex_char_value c < 16" and "\<not> is_ws c"
    and "is_digit 16 c" and "c \<noteq> CHR ''-''" and "c \<noteq> CHR ''+''" and "c \<noteq> CHR ''x''"
    and "c \<noteq> CHR ''X''" and "c \<noteq> CHR '':''"
  using assms
  by (auto simp: is_hex_char_def digit_val_def hex_char_value_def is_ws_def is_digit_def
      less_eq_char_def)

lemma digits_value_hex_aux:
  "list_all is_hex_char s \<Longrightarrow>
   foldl (\<lambda>acc c. acc * 16 + (case digit_val c of None \<Rightarrow> 0 | Some d \<Rightarrow> d)) a s
   = foldl (\<lambda>acc c. 16 * acc + hex_char_value c) a s"
  by (induction s arbitrary: a) (auto simp: hex_char_facts(1) mult.commute)

lemma parseInt_hex:
  assumes "s \<noteq> []" "list_all is_hex_char s"
  shows "parseInt s 16 = Num (int (hex_value s))"
proof -
  from assms obtain c cs where s: "s = c # cs" and c: "is_hex_char c" by (cases s) auto
  have ws: "dropWhile is_ws s = s" using s hex_char_facts(3)[OF c] by simp
  have sg: "(take 1 s = ''-'') = False" "(take 1 s = ''+'') = False"
    using s hex_char_facts(5,6)[OF c] by auto
  have px: "(take 2 s = ''0x'') = False" "(take 2 s = ''0X'') = False"
  proof -
    { fix d assume "take 2 s = [CHR ''0'', d]"
      then have "d \<in> set s" by (metis in_set_takeD list.set_intros(1,2))
      then have "is_hex_char d" using assms(2) by (simp add: list_all_iff) }
    then show "(take 2 s = ''0x'') = False" "(take 2 s = ''0X'') = False"
      using hex_char_facts(7,8) by blast+
  qed
  have tw: "takeWhile (is_digit 16) s = s"
    by (rule takeWhile_all) (use assms(2) in \<open>auto simp: list_all_iff hex_char_facts(4)\<close>)
  have dv: "digits_value 16 s = hex_value s"
    unfolding digits_value_def hex_value_def by (rule digits_value_hex_aux[OF assms(2)])
  have ne: "(s = []) = False" using assms(1) by simp
  show ?thesis
    by (simp only: parseInt_def Let_def ws sg px tw dv ne if_False simp_thms mult_1)
qed

lemma hex_value_foldl_zeros:
  "foldl (\<lambda>acc c. 16 * acc + hex_char_value c) 0 (replicate k CHR ''0'') = 0"
  by (induction k) (auto simp: hex_char_value_def less_eq_char_def)

lemma hex_value_pad: "hex_value (replicate k CHR ''0'' @ g) = hex_value g"
  by (simp add: hex_value_def hex_value_foldl_zeros)

lemma hex_value_bound_aux:
  "list_all is_hex_char s \<Longrightarrow> a < 16 ^ m \<Longrightarrow>
   foldl (\<lambda>acc c. 16 * acc + hex_char_value c) a s < 16 ^ (m + length s)"
proof (induction s arbitrary: a m)
  case Nil
  then show ?case by simp
next
  case (Cons c s)
  from Cons.prems have c: "hex_char_value c < 16" by (simp add: hex_char_facts(2))
  from Cons.prems(2) have "Suc a \<le> 16 ^ m" by simp
  then have "16 * Suc a \<le> 16 * 16 ^ m" by (rule mult_le_mono2)
  with c have "16 * a + hex_char_value c < 16 ^ Suc m" by simp
  from Cons.IH[OF _ this] Cons.prems(1) show ?case by simp
qed

lemma hex_value_group: "is_group g \<Longrightarrow> hex_value g < 65536"
proof -
  assume g: "is_group g"
  then have "hex_value g < 16 ^ (0 + length g)"
    unfolding hex_value_def by (intro hex_value_bound_aux) (auto simp: is_group_def)
  also have "\<dots> \<le> (16::nat) ^ 4" using g by (intro power_increasing) (auto simp: is_group_def)
  finally show ?thesis by simp
qed

lemma is_hex_char_zero: "is_hex_char CHR ''0''"
  by (simp add: is_hex_char_def)

lemma group_binary:
  assumes "is_group g"
  shows "padStart 16 CHR ''0'' (toString2 (parseInt (padStart 4 CHR ''0'' g) 16))
         = bin_fixed 16 (hex_value g)"
proof -
  have ne: "padStart 4 CHR ''0'' g \<noteq> []" using assms by (simp add: padStart_def is_group_def)
  have hx: "list_all is_hex_char (padStart 4 CHR ''0'' g)"
    using assms by (auto simp: padStart_def is_group_def list_all_iff is_hex_char_zero)
  have "parseInt (padStart 4 CHR ''0'' g) 16 = Num (int (hex_value g))"
    using parseInt_hex[OF ne hx] by (simp add: padStart_def hex_value_pad)
  then show ?thesis
    using pad_bin_digits[of "hex_value g" 16] hex_value_group[OF assms]
    by (simp add: toString2_def)
qed

lemma str_split_join:
  "ps \<noteq> [] \<Longrightarrow> list_all (\<lambda>p. ch \<notin> set p) ps \<Longrightarrow> str_split [ch] (str_join [ch] ps) = ps"
proof (induction ps)
  case Nil
  then show ?case by simp
next
  case (Cons x ps)
  show ?case
  proof (cases ps)
    case Nil
    with Cons.prems show ?thesis by (simp add: str_split_no_sep)
  next
    case (Cons y ys)
    with Cons.IH Cons.prems show ?thesis by (simp add: str_split_at_sep)
  qed
qed

lemma group_no_colon: "is_group g \<Longrightarrow> CHR '':'' \<notin> set (padStart 4 CHR ''0'' g)"
  using hex_char_facts(9) by (auto simp: is_group_def padStart_def list_all_iff)

lemma ipv6ToBinary_groups:
  assumes "gs \<noteq> []" "list_all is_group gs"
  shows "ipv6ToBinary (str_join '':'' (map (padStart 4 CHR ''0'') gs))
         = concat (map (\<lambda>g. bin_fixed 16 (hex_value g)) gs)"
proof -
  have 1: "str_split '':'' (str_join '':'' (map (padStart 4 CHR ''0'') gs)) = map (padStart 4 CHR ''0'') gs"
    by (rule str_split_join) (use assms in \<open>auto simp: list_all_iff group_no_colon\<close>)
  have 2: "map (\<lambda>hex. padStart 16 CHR ''0'' (toString2 (parseInt hex 16))) (map (padStart 4 CHR ''0'') gs)
                 = map (\<lambda>g. bin_fixed 16 (hex_value g)) gs"
    using assms(2) by (induction gs) (auto simp: group_binary)
  show ?thesis by (simp only: ipv6ToBinary_def 1 2)
qed

lemma groups_value_aux:
  "list_all is_group gs \<Longrightarrow>
   bin_fixed w a @ concat (map (\<lambda>g. bin_fixed 16 (hex_value g)) gs)
   = bin_fixed (w + 16 * length gs) (foldl (\<lambda>acc g. acc * 65536 + hex_value g) a gs)"
proof (induction gs arbitrary: w a)
  case Nil
  then show ?case by simp
next
  case (Cons g gs)
  from Cons.prems have g: "hex_value g < 2 ^ 16" by (simp add: hex_value_group)
  have 1: "bin_fixed w a @ bin_fixed 16 (hex_value g) = bin_fixed (w + 16) (a * 65536 + hex_value g)"
    using bin_fixed_append[OF g, of w a] by simp
  have 2: "w + 16 + 16 * length gs = w + 16 * length (g # gs)" by simp
  have "bin_fixed w a @ concat (map (\<lambda>g. bin_fixed 16 (hex_value g)) (g # gs))
        = (bin_fixed w a @ bin_fixed 16 (hex_value g)) @ concat (map (\<lambda>g. bin_fixed 16 (hex_value g)) gs)"
    by simp
  also have "\<dots> = bin_fixed (w + 16 + 16 * length gs)
                      (foldl (\<lambda>acc g. acc * 65536 + hex_value g) (a * 65536 + hex_value g) gs)"
    unfolding 1 using Cons.prems by (intro Cons.IH) simp
  finally show ?case unfolding 2 by simp
qed

lemma groups_value:
  "list_all is_group gs \<Longrightarrow>
   concat (map (\<lambda>g. bin_fixed 16 (hex_value g)) gs)
   = bin_fixed (16 * length gs) (foldl (\<lambda>acc g. acc * 65536 + hex_value g) 0 gs)"
  using groups_value_aux[of gs 0 0] by simp

lemma groups_bound_aux:
  "list_all is_group gs \<Longrightarrow> a < 65536 ^ m \<Longrightarrow>
   foldl (\<lambda>acc g. acc * 65536 + hex_value g) a gs < 65536 ^ (m + length gs)"
proof (induction gs arbitrary: a m)
  case Nil
  then show ?case by simp
next
  case (Cons g gs)
  from Cons.prems have g: "hex_value g < 65536" by (simp add: hex_value_group)
  from Cons.prems(2) have "Suc a \<le> 65536 ^ m" by simp
  then have "Suc a * 65536 \<le> 65536 ^ m * 65536" by (rule mult_le_mono1)
  with g have "a * 65536 + hex_value g < 65536 ^ Suc m" by simp
  from Cons.IH[OF _ this] Cons.prems(1) show ?case by simp
qed

lemma groups_bound:
  "list_all is_group gs \<Longrightarrow> length gs = 8 \<Longrightarrow>
   foldl (\<lambda>acc g. acc * 65536 + hex_value g) 0 gs < 2 ^ 128"
  using groups_bound_aux[of gs 0 0] by simp

lemma pad_zero_groups: "padStart 4 CHR ''0'' ''0000'' = padStart 4 CHR ''0'' ''0''"
  by code_simp

lemma missing_nat:
  "nat (8 - int x - int y) = 8 - (x + y)" "nat (8 - int x) = 8 - x"
  by simp_all

lemma expandIpv6_valid:
  assumes "ipv6_groups s = Some gs"
  shows "expandIpv6 s = Inr (str_join '':'' (map (padStart 4 CHR ''0'') gs))"
proof (cases "str_includes s ''::''")
  case False
  with assms show ?thesis
    by (auto simp: ipv6_groups_def expandIpv6_def Let_def split: if_splits)
next
  case True
  with assms obtain l r where sp: "str_split ''::'' s = [l, r]"
    by (auto simp: ipv6_groups_def split: list.splits)
  define left where "left = (if l = [] then [] else str_split '':'' l)"
  define right where "right = (if r = [] then [] else str_split '':'' r)"
  from assms True sp have le: "length left + length right \<le> 7"
    and gs: "gs = left @ replicate (8 - (length left + length right)) ''0'' @ right"
    by (auto simp: ipv6_groups_def Let_def left_def right_def split: if_splits)
  have lr: "(if l \<noteq> [] then str_split '':'' l else []) = left"
    "(if r \<noteq> [] then str_split '':'' r else []) = right"
    by (auto simp: left_def right_def)
  have nn: "(8 - int (length left) - int (length right) < 0) = False" using le by simp
  have p0: "(case at_index [l, r] 0 of None \<Rightarrow> [] | Some p \<Rightarrow> p) = l"
    and p1: "(case at_index [l, r] 1 of None \<Rightarrow> [] | Some p \<Rightarrow> p) = r"
    by (simp_all add: at_index_def)
  have "expandIpv6 s = Inr (str_join '':'' (map (padStart 4 CHR ''0'')
          (left @ replicate (8 - (length left + length right)) ''0000'' @ right)))"
    unfolding expandIpv6_def Let_def sp p0 p1 lr
    by (simp only: True if_True nn if_False missing_nat)
  also have "map (padStart 4 CHR ''0'') (left @ replicate (8 - (length left + length right)) ''0000'' @ right)
             = map (padStart 4 CHR ''0'') gs"
    unfolding gs by (simp only: map_append map_replicate pad_zero_groups)
  finally show ?thesis .
qed

lemma ipv6_groups_length: "ipv6_groups s = Some gs \<Longrightarrow> length gs = 8"
  by (auto simp: ipv6_groups_def Let_def split: if_splits list.splits)

lemma ipv6_binary_valid:
  assumes "valid_ipv6_hex s"
  shows "\<exists>v. v < 2 ^ 128 \<and> ipv6_value s = word_of_nat v \<and>
             (\<exists>e. expandIpv6 s = Inr e \<and> ipv6ToBinary e = bin_fixed 128 v)"
proof -
  from assms obtain gs where gs: "ipv6_groups s = Some gs" and all: "list_all is_group gs"
    by (auto simp: valid_ipv6_hex_def split: option.splits)
  have len: "length gs = 8" by (rule ipv6_groups_length[OF gs])
  then have ne: "gs \<noteq> []" by auto
  let ?v = "foldl (\<lambda>acc g. acc * 65536 + hex_value g) 0 gs"
  have "ipv6ToBinary (str_join '':'' (map (padStart 4 CHR ''0'') gs)) = bin_fixed 128 ?v"
    using ipv6ToBinary_groups[OF ne all] groups_value[OF all] len by simp
  moreover have "?v < 2 ^ 128" by (rule groups_bound[OF all len])
  moreover have "ipv6_value s = word_of_nat ?v" using assms by (simp add: ipv6_value_def gs)
  ultimately show ?thesis using expandIpv6_valid[OF gs] by blast
qed

lemma share_top_bits_of_nat:
  assumes "a < 2 ^ 128" "b < 2 ^ 128"
  shows "share_top_bits p (word_of_nat a :: 128 word) (word_of_nat b)
         = (a div 2 ^ (128 - p) = b div 2 ^ (128 - p))"
proof -
  have ua: "unat (word_of_nat a :: 128 word) = a" using assms(1) by (simp add: unat_of_nat)
  have ub: "unat (word_of_nat b :: 128 word) = b" using assms(2) by (simp add: unat_of_nat)
  have "share_top_bits p (word_of_nat a :: 128 word) (word_of_nat b)
        = (unat (drop_bit (128 - p) (word_of_nat a :: 128 word)) = unat (drop_bit (128 - p) (word_of_nat b :: 128 word)))"
    by (simp add: share_top_bits_def word_unat_eq_iff)
  also have "\<dots> = (a div 2 ^ (128 - p) = b div 2 ^ (128 - p))"
    by (simp only: unat_drop_bit_eq ua ub) (simp add: drop_bit_eq_div)
  finally show ?thesis .
qed

lemma isIpv6InCidr_valid:
  assumes "valid_ipv6_hex a" "valid_ipv6_hex_cidr c"
  shows "isIpv6InCidr a c = Inr (share_top_bits (cidr_length c) (ipv6_value a) (ipv6_value (cidr_base c)))"
proof -
  from assms(2) have vb: "valid_ipv6_hex (cidr_base c)" and dl: "is_dec (cidr_bits c)" and le: "cidr_length c \<le> 128"
    by (auto simp: valid_ipv6_hex_cidr_def)
  have sp: "str_split ''/'' c = [cidr_base c, cidr_bits c]" by (rule cidr_split[OF dl])
  have pl: "parseInt (cidr_bits c) 10 = Num (int (cidr_length c))"
    using parseInt_dec[OF dl] by (simp add: cidr_length_def)
  from ipv6_binary_valid[OF assms(1)] obtain va ea where
    va: "va < 2 ^ 128" "ipv6_value a = word_of_nat va" "expandIpv6 a = Inr ea" "ipv6ToBinary ea = bin_fixed 128 va"
    by blast
  from ipv6_binary_valid[OF vb] obtain vc ec where
    vc: "vc < 2 ^ 128" "ipv6_value (cidr_base c) = word_of_nat vc" "expandIpv6 (cidr_base c) = Inr ec"
      "ipv6ToBinary ec = bin_fixed 128 vc"
    by blast
  have "isIpv6InCidr a c = Inr (take (cidr_length c) (bin_fixed 128 va) = take (cidr_length c) (bin_fixed 128 vc))"
    by (simp add: isIpv6InCidr_def sp at_index_def parseInt_opt_def pl va(3,4) vc(3,4) substring0_def)
  also have "(take (cidr_length c) (bin_fixed 128 va) = take (cidr_length c) (bin_fixed 128 vc))
             = (va div 2 ^ (128 - cidr_length c) = vc div 2 ^ (128 - cidr_length c))"
    by (rule take_bin_fixed_eq_iff[OF va(1) vc(1) le])
  also have "\<dots> = share_top_bits (cidr_length c) (ipv6_value a) (ipv6_value (cidr_base c))"
    unfolding va(2) vc(2) by (rule share_top_bits_of_nat[OF va(1) vc(1), symmetric])
  finally show ?thesis .
qed

text \<open>
  C1. For a well-formed IPv4 address and block, and for an IPv6 address and block
  written with hexadecimal groups only (with or without \<open>::\<close>), \<open>isIpv4InCidr\<close> and
  \<open>isIpv6InCidr\<close> hold exactly when the address and the base address of the block,
  read as 32-bit and 128-bit integers, agree on their top prefix-length bits. So the
  answer stays the same when the address or the base address is replaced by one with
  the same top bits, whatever the lower bits are, at every prefix length.
\<close>

theorem contains_iff_top_bits:
  "(valid_ipv4 a \<and> valid_ipv4_cidr c \<longrightarrow>
      isIpv4InCidr a c = share_top_bits (cidr_length c) (ipv4_value a) (ipv4_value (cidr_base c)))
   \<and> (valid_ipv6_hex a6 \<and> valid_ipv6_hex_cidr c6 \<longrightarrow>
      isIpv6InCidr a6 c6
        = Inr (share_top_bits (cidr_length c6) (ipv6_value a6) (ipv6_value (cidr_base c6))))
   \<and> (valid_ipv4 a \<and> valid_ipv4_cidr c \<and> valid_ipv4 a' \<and> valid_ipv4_cidr c'
        \<and> cidr_length c' = cidr_length c
        \<and> share_top_bits (cidr_length c) (ipv4_value a') (ipv4_value a)
        \<and> share_top_bits (cidr_length c) (ipv4_value (cidr_base c')) (ipv4_value (cidr_base c))
      \<longrightarrow> isIpv4InCidr a' c' = isIpv4InCidr a c)
   \<and> (valid_ipv6_hex a6 \<and> valid_ipv6_hex_cidr c6 \<and> valid_ipv6_hex a6' \<and> valid_ipv6_hex_cidr c6'
        \<and> cidr_length c6' = cidr_length c6
        \<and> share_top_bits (cidr_length c6) (ipv6_value a6') (ipv6_value a6)
        \<and> share_top_bits (cidr_length c6) (ipv6_value (cidr_base c6')) (ipv6_value (cidr_base c6))
      \<longrightarrow> isIpv6InCidr a6' c6' = isIpv6InCidr a6 c6)"
proof (intro conjI impI)
  assume "valid_ipv4 a \<and> valid_ipv4_cidr c"
  then show "isIpv4InCidr a c
             = share_top_bits (cidr_length c) (ipv4_value a) (ipv4_value (cidr_base c))"
    by (simp add: isIpv4InCidr_valid)
next
  assume "valid_ipv6_hex a6 \<and> valid_ipv6_hex_cidr c6"
  then show "isIpv6InCidr a6 c6
             = Inr (share_top_bits (cidr_length c6) (ipv6_value a6) (ipv6_value (cidr_base c6)))"
    by (simp add: isIpv6InCidr_valid)
next
  assume h: "valid_ipv4 a \<and> valid_ipv4_cidr c \<and> valid_ipv4 a' \<and> valid_ipv4_cidr c'
        \<and> cidr_length c' = cidr_length c
        \<and> share_top_bits (cidr_length c) (ipv4_value a') (ipv4_value a)
        \<and> share_top_bits (cidr_length c) (ipv4_value (cidr_base c')) (ipv4_value (cidr_base c))"
  then have "isIpv4InCidr a c
             = share_top_bits (cidr_length c) (ipv4_value a) (ipv4_value (cidr_base c))"
    and "isIpv4InCidr a' c'
             = share_top_bits (cidr_length c) (ipv4_value a') (ipv4_value (cidr_base c'))"
    by (simp_all add: isIpv4InCidr_valid)
  with h show "isIpv4InCidr a' c' = isIpv4InCidr a c"
    by (simp add: share_top_bits_def)
next
  assume h: "valid_ipv6_hex a6 \<and> valid_ipv6_hex_cidr c6 \<and> valid_ipv6_hex a6' \<and> valid_ipv6_hex_cidr c6'
        \<and> cidr_length c6' = cidr_length c6
        \<and> share_top_bits (cidr_length c6) (ipv6_value a6') (ipv6_value a6)
        \<and> share_top_bits (cidr_length c6) (ipv6_value (cidr_base c6')) (ipv6_value (cidr_base c6))"
  then have "isIpv6InCidr a6 c6
             = Inr (share_top_bits (cidr_length c6) (ipv6_value a6) (ipv6_value (cidr_base c6)))"
    and "isIpv6InCidr a6' c6'
             = Inr (share_top_bits (cidr_length c6) (ipv6_value a6') (ipv6_value (cidr_base c6')))"
    by (simp_all add: isIpv6InCidr_valid)
  with h show "isIpv6InCidr a6' c6' = isIpv6InCidr a6 c6"
    by (simp add: share_top_bits_def)
qed

theorem contains_iff_top_bits_witness:
  "valid_ipv4 ''0.0.0.9'' \<and> valid_ipv4_cidr ''0.0.0.3/29''
   \<and> \<not> isIpv4InCidr ''0.0.0.9'' ''0.0.0.3/29''
   \<and> \<not> share_top_bits (cidr_length ''0.0.0.3/29'') (ipv4_value ''0.0.0.9'')
           (ipv4_value (cidr_base ''0.0.0.3/29''))
   \<and> valid_ipv6_hex ''8000::'' \<and> valid_ipv6_hex_cidr ''::/1''
   \<and> isIpv6InCidr ''8000::'' ''::/1''
       = Inr (share_top_bits (cidr_length ''::/1'') (ipv6_value ''8000::'')
                (ipv6_value (cidr_base ''::/1'')))"
proof -
  have v4: "valid_ipv4 ''0.0.0.9''" "valid_ipv4_cidr ''0.0.0.3/29''"
    by code_simp+
  have v6: "valid_ipv6_hex ''8000::''" "valid_ipv6_hex_cidr ''::/1''"
    by code_simp+
  have r4: "\<not> isIpv4InCidr ''0.0.0.9'' ''0.0.0.3/29''"
    by code_simp
  note t = contains_iff_top_bits [of "''0.0.0.9''" "''0.0.0.3/29''" "''8000::''" "''::/1''"
      "''0.0.0.9''" "''0.0.0.3/29''" "''8000::''" "''::/1''"]
  from t v4 have e4: "isIpv4InCidr ''0.0.0.9'' ''0.0.0.3/29''
       = share_top_bits (cidr_length ''0.0.0.3/29'') (ipv4_value ''0.0.0.9'')
           (ipv4_value (cidr_base ''0.0.0.3/29''))"
    by blast
  from t v6 have e6: "isIpv6InCidr ''8000::'' ''::/1''
       = Inr (share_top_bits (cidr_length ''::/1'') (ipv6_value ''8000::'')
                (ipv6_value (cidr_base ''::/1'')))"
    by blast
  from e4 r4 have n4: "\<not> share_top_bits (cidr_length ''0.0.0.3/29'') (ipv4_value ''0.0.0.9'')
           (ipv4_value (cidr_base ''0.0.0.3/29''))"
    by blast
  from v4 v6 r4 n4 e6 show ?thesis by blast
qed

text \<open>
  An IPv6 literal may end in a dotted IPv4 literal. \<open>ipv6ToBinary\<close> reads that last
  field with \<open>parseInt(_, 16)\<close>, which stops at the first dot, and \<open>expandIpv6\<close> counts
  it as one group of eight; the steps of the check on \<open>::ffff:1.2.3.4\<close> and
  \<open>::ffff:0:0/96\<close>:
\<close>

lemma parse_group_examples:
  "padStart 16 CHR ''0'' (toString2 (parseInt ''0000'' 16)) = ''0000000000000000''"
  "padStart 16 CHR ''0'' (toString2 (parseInt ''1.2.3.4'' 16)) = ''0000000000000001''"
  by code_simp+

lemma parse_group_ffff:
  "padStart 16 CHR ''0'' (toString2 (parseInt ''ffff'' 16)) = ''1111111111111111''"
  by (simp add: parseInt_def is_ws_def is_digit_def digit_val_def digits_value_def
      less_eq_char_def toString2_def padStart_def)

lemma expand_examples:
  "expandIpv6 ''::ffff:1.2.3.4'' = Inr ''0000:0000:0000:0000:0000:0000:ffff:1.2.3.4''"
  "expandIpv6 ''::ffff:0:0'' = Inr ''0000:0000:0000:0000:0000:ffff:0000:0000''"
  by code_simp+

lemma split_examples:
  "str_split '':'' ''0000:0000:0000:0000:0000:0000:ffff:1.2.3.4''
   = [''0000'', ''0000'', ''0000'', ''0000'', ''0000'', ''0000'', ''ffff'', ''1.2.3.4'']"
  "str_split '':'' ''0000:0000:0000:0000:0000:ffff:0000:0000''
   = [''0000'', ''0000'', ''0000'', ''0000'', ''0000'', ''ffff'', ''0000'', ''0000'']"
  "str_split ''/'' ''::ffff:0:0/96'' = [''::ffff:0:0'', ''96'']"
  by code_simp+

lemma binary_examples:
  "ipv6ToBinary ''0000:0000:0000:0000:0000:0000:ffff:1.2.3.4''
   = ''00000000000000000000000000000000000000000000000000000000000000000000000000000000000000000000000011111111111111110000000000000001''"
  "ipv6ToBinary ''0000:0000:0000:0000:0000:ffff:0000:0000''
   = ''00000000000000000000000000000000000000000000000000000000000000000000000000000000111111111111111100000000000000000000000000000000''"
  unfolding ipv6ToBinary_def split_examples
  by (simp_all add: parse_group_examples parse_group_ffff)

lemma embedded_quad_not_contained:
  "isIpv6InCidr ''::ffff:1.2.3.4'' ''::ffff:0:0/96'' = Inr False"
proof -
  have p: "parseInt ''96'' 10 = Num 96" by code_simp
  show ?thesis
    unfolding isIpv6InCidr_def split_examples Let_def
    by (simp add: at_index_def parseInt_opt_def p expand_examples binary_examples
        substring0_def)
qed

lemma hex_value_examples: "hex_value ''ffff'' = 65535" "hex_value ''0'' = 0"
  by (simp_all add: hex_value_def hex_char_value_def less_eq_char_def)

lemma embedded_quad_value:
  "ipv6_value ''::ffff:1.2.3.4'' = word_of_nat (65535 * 4294967296 + 16909060)"
proof -
  have n: "\<not> valid_ipv6_hex ''::ffff:1.2.3.4''" by code_simp
  have f: "ipv6_quad_fields ''::ffff:1.2.3.4''
           = Some [''0'', ''0'', ''0'', ''0'', ''0'', ''ffff'', ''1.2.3.4'']"
    by code_simp
  have s: "str_split ''.'' ''1.2.3.4'' = [''1'', ''2'', ''3'', ''4'']" by code_simp
  have q: "ipv4_value ''1.2.3.4'' = 16909060"
    by (simp add: ipv4_value_def s dec_value_def)
  show ?thesis by (simp add: ipv6_value_def n f q hex_value_examples)
qed

lemma mapped_block_value:
  "ipv6_value (cidr_base ''::ffff:0:0/96'') = word_of_nat (65535 * 4294967296)"
  "cidr_length ''::ffff:0:0/96'' = 96"
proof -
  have b: "cidr_base ''::ffff:0:0/96'' = ''::ffff:0:0''" by code_simp
  have v: "valid_ipv6_hex ''::ffff:0:0''" by code_simp
  have g: "ipv6_groups ''::ffff:0:0'' = Some [''0'', ''0'', ''0'', ''0'', ''0'', ''ffff'', ''0'', ''0'']"
    by code_simp
  show "ipv6_value (cidr_base ''::ffff:0:0/96'') = word_of_nat (65535 * 4294967296)"
    by (simp add: b ipv6_value_def v g hex_value_examples)
  have c: "cidr_bits ''::ffff:0:0/96'' = ''96''" by code_simp
  show "cidr_length ''::ffff:0:0/96'' = 96"
    by (simp add: cidr_length_def c dec_value_def)
qed

text \<open>
  C1, as the specification states it, fails for an IPv6 literal that ends in a dotted
  IPv4 literal: \<open>::ffff:1.2.3.4\<close> and the base address of \<open>::ffff:0:0/96\<close> agree on
  their top 96 bits, yet \<open>isIpv6InCidr\<close> reports the address outside of the block.
\<close>

theorem embedded_ipv4_counterexample:
  "valid_ipv6 ''::ffff:1.2.3.4'' \<and> valid_ipv6_cidr ''::ffff:0:0/96''
   \<and> share_top_bits (cidr_length ''::ffff:0:0/96'') (ipv6_value ''::ffff:1.2.3.4'')
         (ipv6_value (cidr_base ''::ffff:0:0/96''))
   \<and> isIpv6InCidr ''::ffff:1.2.3.4'' ''::ffff:0:0/96'' = Inr False"
proof -
  have v: "valid_ipv6 ''::ffff:1.2.3.4''" "valid_ipv6_cidr ''::ffff:0:0/96''"
    by code_simp+
  have s: "share_top_bits (cidr_length ''::ffff:0:0/96'') (ipv6_value ''::ffff:1.2.3.4'')
             (ipv6_value (cidr_base ''::ffff:0:0/96''))"
    unfolding embedded_quad_value mapped_block_value
    by (subst share_top_bits_of_nat) simp_all
  from v s embedded_quad_not_contained show ?thesis by blast
qed

section \<open>Failed refreshes\<close>

lemma fetch_transport_failure: "fetchIpRanges st now HttpError = (st, Failed)"
  by (simp add: fetchIpRanges_def)

lemma fetch_without_prefixes:
  "get_prefixes d = None \<Longrightarrow>
   fetchIpRanges st now (HttpOk d) = (st\<lparr>ipRangesData := d, lastUpdated := Some now\<rparr>, Failed)"
  by (cases d) (auto simp: fetchIpRanges_def groupByService_def success_line_def Let_def)

text \<open>
  C2. A refresh whose request fails leaves the three cached fields as they were. A
  refresh whose request delivers an unusable body (no \<open>prefixes\<close> list, text that is
  not JSON, or \<open>null\<close>) also fails, but only after \<open>ipRangesData\<close> and \<open>lastUpdated\<close>
  were overwritten: the map of the previous dataset stays, \<open>getServices\<close> goes on
  listing its services, and \<open>getRegions\<close> now throws.
\<close>

theorem unusable_body_overwrites_cache:
  "fetchIpRanges st now HttpError = (st, Failed)
   \<and> fetchIpRanges st now (HttpOk (JDoc no_prefix_lists))
       = (st\<lparr>ipRangesData := JDoc no_prefix_lists, lastUpdated := Some now\<rparr>, Failed)
   \<and> fetchIpRanges st now (HttpOk (JText s))
       = (st\<lparr>ipRangesData := JText s, lastUpdated := Some now\<rparr>, Failed)
   \<and> fetchIpRanges st now (HttpOk JNull)
       = (st\<lparr>ipRangesData := JNull, lastUpdated := Some now\<rparr>, Failed)
   \<and> fst (fetchIpRanges (loaded one_record) ''t2'' (HttpOk (JDoc no_prefix_lists)))
       \<noteq> loaded one_record
   \<and> getRegions (fst (fetchIpRanges (loaded one_record) ''t2'' (HttpOk (JDoc no_prefix_lists))))
       = Inl TypeError
   \<and> services (getServices (fst (fetchIpRanges (loaded one_record) ''t2''
         (HttpOk (JDoc no_prefix_lists))))) = [''EC2'']"
proof -
  have a: "get_prefixes (JDoc no_prefix_lists) = None" "get_prefixes (JText s) = None"
    "get_prefixes JNull = None"
    by (simp_all add: no_prefix_lists_def)
  note f = fetch_without_prefixes [OF a(1)] fetch_without_prefixes [OF a(2)]
    fetch_without_prefixes [OF a(3)]
  have l: "ipRangesData (loaded one_record) = JDoc one_record"
    "map fst (serviceIpRangesMap (loaded one_record)) = [''EC2'']"
    by code_simp+
  have n: "JDoc no_prefix_lists \<noteq> JDoc one_record"
    by (simp add: no_prefix_lists_def one_record_def)
  have 1: "fst (fetchIpRanges (loaded one_record) ''t2'' (HttpOk (JDoc no_prefix_lists)))
           \<noteq> loaded one_record"
  proof
    assume "fst (fetchIpRanges (loaded one_record) ''t2'' (HttpOk (JDoc no_prefix_lists)))
            = loaded one_record"
    then have "ipRangesData (fst (fetchIpRanges (loaded one_record) ''t2''
                 (HttpOk (JDoc no_prefix_lists)))) = ipRangesData (loaded one_record)"
      by simp
    then show False using n by (simp add: f(1) l(1))
  qed
  have 2: "getRegions (fst (fetchIpRanges (loaded one_record) ''t2''
             (HttpOk (JDoc no_prefix_lists)))) = Inl TypeError"
    unfolding f(1) by (simp add: getRegions_def no_prefix_lists_def)
  have 3: "services (getServices (fst (fetchIpRanges (loaded one_record) ''t2''
             (HttpOk (JDoc no_prefix_lists))))) = [''EC2'']"
    by (simp add: f(1) getServices_def l(2))
  show ?thesis using f 1 2 3 by (simp add: fetch_transport_failure)
qed

section \<open>Loaded or not\<close>

lemma not_loaded_answers:
  assumes "\<not> isDataLoaded st"
  shows "controller_getServices st = Inl ServiceUnavailableException"
    and "controller_getRegions st = Inl ServiceUnavailableException"
    and "controller_getAllIpRanges st reg = Inl ServiceUnavailableException"
    and "controller_getServiceIpRanges st svc reg = Inl ServiceUnavailableException"
  using assms
  by (simp_all add: controller_getServices_def controller_getRegions_def
      controller_getAllIpRanges_def controller_getServiceIpRanges_def ensureDataLoaded_def)

lemma initially_not_loaded: "\<not> isDataLoaded initial_state"
  by (simp add: isDataLoaded_def initial_state_def)

lemma transport_failure_stays_unloaded:
  "\<not> isDataLoaded st \<Longrightarrow> \<not> isDataLoaded (fst (fetchIpRanges st now HttpError))"
  by (simp add: fetch_transport_failure)

lemma empty_dataset_is_loaded:
  assumes "st = fst (fetchIpRanges st0 now
             (HttpOk (JDoc \<lparr>syncToken = t, prefixes = Some [], ipv6_prefixes = Some []\<rparr>)))"
  shows "isDataLoaded st"
    and "controller_getServices st
         = Inr \<lparr>services = [], syncToken_l = (case t of None \<Rightarrow> [] | Some x \<Rightarrow> x),
                lastUpdated_l = now\<rparr>"
    and "controller_getRegions st
         = Inr \<lparr>regions = [], syncToken_r = (case t of None \<Rightarrow> [] | Some x \<Rightarrow> x),
                lastUpdated_r = now\<rparr>"
    and "controller_getAllIpRanges st reg
         = Inr \<lparr>syncToken_a = (case t of None \<Rightarrow> [] | Some x \<Rightarrow> x), lastUpdated_a = now,
                services_a = []\<rparr>"
    and "searchByIp st addr = Inr \<lparr>ip = addr, found = False, matches = []\<rparr>"
proof -
  have st: "st = st0\<lparr>ipRangesData := JDoc \<lparr>syncToken = t, prefixes = Some [], ipv6_prefixes = Some []\<rparr>,
                     lastUpdated := Some now, serviceIpRangesMap := []\<rparr>"
    unfolding assms by (simp add: fetchIpRanges_def groupByService_def success_line_def)
  show "isDataLoaded st" by (simp add: st isDataLoaded_def)
  show "controller_getServices st
         = Inr \<lparr>services = [], syncToken_l = (case t of None \<Rightarrow> [] | Some x \<Rightarrow> x),
                lastUpdated_l = now\<rparr>"
    by (simp add: st controller_getServices_def ensureDataLoaded_def isDataLoaded_def
        getServices_def syncToken_text_def lastUpdated_text_def)
  show "controller_getRegions st
         = Inr \<lparr>regions = [], syncToken_r = (case t of None \<Rightarrow> [] | Some x \<Rightarrow> x),
                lastUpdated_r = now\<rparr>"
    by (simp add: st controller_getRegions_def ensureDataLoaded_def isDataLoaded_def
        getRegions_def syncToken_text_def lastUpdated_text_def)
  show "controller_getAllIpRanges st reg
         = Inr \<lparr>syncToken_a = (case t of None \<Rightarrow> [] | Some x \<Rightarrow> x), lastUpdated_a = now,
                services_a = []\<rparr>"
    by (simp add: st controller_getAllIpRanges_def ensureDataLoaded_def isDataLoaded_def
        getAllServiceIpRanges_def own_properties_def syncToken_text_def lastUpdated_text_def)
  show "searchByIp st addr = Inr \<lparr>ip = addr, found = False, matches = []\<rparr>"
    by (simp add: st searchByIp_def search_ipv4_def)
qed

text \<open>
  C9. \<open>isDataLoaded\<close> is false at the start, and while it is false every endpoint
  answers \<open>ServiceUnavailableException\<close>; a successful refresh of an empty dataset
  makes it true and the queries return empty lists (the three lemmas above). But it
  does not stay false until the first successful refresh: a first refresh that fails
  on a body without the prefix lists has already stored the body, so \<open>isDataLoaded\<close>
  is true and the regions endpoint ends in an uncaught \<open>TypeError\<close> instead of
  \<open>ServiceUnavailableException\<close>.
\<close>

theorem loaded_after_failed_refresh:
  "\<not> isDataLoaded initial_state
   \<and> snd (fetchIpRanges initial_state now (HttpOk (JDoc no_prefix_lists))) = Failed
   \<and> isDataLoaded (fst (fetchIpRanges initial_state now (HttpOk (JDoc no_prefix_lists))))
   \<and> controller_getRegions (fst (fetchIpRanges initial_state now (HttpOk (JDoc no_prefix_lists))))
       = Inl (Uncaught TypeError)"
proof -
  have a: "get_prefixes (JDoc no_prefix_lists) = None"
    by (simp add: no_prefix_lists_def)
  show ?thesis
    unfolding fetch_without_prefixes [OF a]
    by (simp add: isDataLoaded_def controller_getRegions_def ensureDataLoaded_def
        getRegions_def no_prefix_lists_def initial_state_def)
qed

section \<open>Successful refreshes\<close>

lemma successful_refresh:
  assumes "fetchIpRanges st0 now res = (st, l)" "l \<noteq> Failed"
  shows "\<exists>d ps. res = HttpOk (JDoc d) \<and> prefixes d = Some ps
           \<and> st = st0\<lparr>ipRangesData := JDoc d, lastUpdated := Some now,
                       serviceIpRangesMap := cache_of ps (records6 st)\<rparr>"
proof (cases res)
  case HttpError
  with assms show ?thesis by (simp add: fetchIpRanges_def)
next
  case (HttpOk body)
  show ?thesis
  proof (cases "get_prefixes body")
    case None
    with assms HttpOk show ?thesis by (simp add: fetch_without_prefixes)
  next
    case (Some ps)
    then obtain d where d: "body = JDoc d" "prefixes d = Some ps"
      by (cases body) auto
    from assms(1) show ?thesis
      unfolding HttpOk d(1)
      by (cases "ipv6_prefixes d")
         (auto simp: fetchIpRanges_def groupByService_def success_line_def d(2) Let_def
            cache_of_def service_map_def records6_def)
  qed
qed

lemma successful_refresh_data:
  assumes "fetchIpRanges st0 now res = (st, l)" "l \<noteq> Failed"
  shows "truthy (ipRangesData st)" and "get_prefixes (ipRangesData st) = Some (records4 st)"
    and "serviceIpRangesMap st = cache_of (records4 st) (records6 st)"
proof -
  from successful_refresh [OF assms] obtain d ps where
    r: "prefixes d = Some ps"
       "st = st0\<lparr>ipRangesData := JDoc d, lastUpdated := Some now,
                  serviceIpRangesMap := cache_of ps (records6 st)\<rparr>"
    by blast
  have i: "ipRangesData st = JDoc d" by (subst r(2)) simp
  show "truthy (ipRangesData st)" by (simp add: i)
  show p: "get_prefixes (ipRangesData st) = Some (records4 st)"
    by (simp add: i r(1) records4_def)
  have "serviceIpRangesMap st = cache_of ps (records6 st)" by (subst r(2)) simp
  then show "serviceIpRangesMap st = cache_of (records4 st) (records6 st)"
    by (simp add: records4_def i r(1))
qed

section \<open>Duplicates under a region filter\<close>

text \<open>
  C6. For a dataset that holds the same record twice, the answer without a region
  lists the prefix once, through the sets of \<open>groupByService\<close>; the answers with a
  region filter, of \<open>getServiceIpRanges\<close> and of \<open>getAllServiceIpRanges\<close>, list it
  twice and count 2, since \<open>filterByServiceAndRegion\<close> pushes every matching record.
\<close>

theorem region_filter_repeats_prefixes:
  "getServiceIpRanges (loaded duplicate_records) ''EC2'' None
     = Inr (Some \<lparr>ipv4_prefixes = [''1.2.3.0/24''], ipv6_prefixes_s = [],
                   count = \<lparr>ipv4 = 1, ipv6 = 0\<rparr>, service_s = ''EC2''\<rparr>)
   \<and> getServiceIpRanges (loaded duplicate_records) ''EC2'' (Some ''r1'')
     = Inr (Some \<lparr>ipv4_prefixes = [''1.2.3.0/24'', ''1.2.3.0/24''], ipv6_prefixes_s = [],
                   count = \<lparr>ipv4 = 2, ipv6 = 0\<rparr>, service_s = ''EC2''\<rparr>)
   \<and> map_option services_a (case getAllServiceIpRanges (loaded duplicate_records) (Some ''r1'') of
         Inl e \<Rightarrow> None | Inr a \<Rightarrow> Some a)
     = Some [(''EC2'', \<lparr>ipv4_prefixes = [''1.2.3.0/24'', ''1.2.3.0/24''], ipv6_prefixes_s = [],
                        count = \<lparr>ipv4 = 2, ipv6 = 0\<rparr>\<rparr>)]"
proof (intro conjI)
  show "getServiceIpRanges (loaded duplicate_records) ''EC2'' None
     = Inr (Some \<lparr>ipv4_prefixes = [''1.2.3.0/24''], ipv6_prefixes_s = [],
                   count = \<lparr>ipv4 = 1, ipv6 = 0\<rparr>, service_s = ''EC2''\<rparr>)"
    by code_simp
  show "getServiceIpRanges (loaded duplicate_records) ''EC2'' (Some ''r1'')
     = Inr (Some \<lparr>ipv4_prefixes = [''1.2.3.0/24'', ''1.2.3.0/24''], ipv6_prefixes_s = [],
                   count = \<lparr>ipv4 = 2, ipv6 = 0\<rparr>, service_s = ''EC2''\<rparr>)"
    by code_simp
  show "map_option services_a (case getAllServiceIpRanges (loaded duplicate_records) (Some ''r1'') of
         Inl e \<Rightarrow> None | Inr a \<Rightarrow> Some a)
     = Some [(''EC2'', \<lparr>ipv4_prefixes = [''1.2.3.0/24'', ''1.2.3.0/24''], ipv6_prefixes_s = [],
                        count = \<lparr>ipv4 = 2, ipv6 = 0\<rparr>\<rparr>)]"
    by code_simp
qed

section \<open>Searching with text that is not an address\<close>

lemma str_split_not_Nil: "str_split [ch] s \<noteq> []"
  by (induction s) (auto split: list.splits)

lemma pad4: "replicate 4 (0::nat) = [0, 0, 0, 0]"
  by (simp add: numeral_eq_Suc)

lemma short_cases:
  assumes "length (xs :: 'a list) \<le> 3" "xs \<noteq> []"
  obtains (one) a where "xs = [a]" | (two) a b where "xs = [a, b]"
    | (three) a b c where "xs = [a, b, c]"
proof (cases xs)
  case Nil
  with assms show ?thesis by simp
next
  case c1: (Cons a ys)
  show ?thesis
  proof (cases ys)
    case Nil
    with c1 one show ?thesis by simp
  next
    case c2: (Cons b zs)
    show ?thesis
    proof (cases zs)
      case Nil
      with c1 c2 two show ?thesis by simp
    next
      case c3: (Cons c ws)
      with c1 c2 assms have "ws = []" by simp
      with c1 c2 c3 three show ?thesis by simp
    qed
  qed
qed

lemma str_includes_set: "str_includes s sub \<Longrightarrow> set sub \<subseteq> set s"
proof (induction s)
  case Nil
  then show ?case by simp
next
  case (Cons c cs)
  show ?case
  proof (cases "take (length sub) (c # cs) = sub")
    case True
    have "set (take (length sub) (c # cs)) \<subseteq> set (c # cs)" by (rule set_take_subset)
    then show ?thesis unfolding True .
  next
    case False
    with Cons.prems have "str_includes cs sub" by simp
    then have "set sub \<subseteq> set cs" by (rule Cons.IH)
    then show ?thesis by auto
  qed
qed

lemma str_split_chars:
  "x \<in> set s \<Longrightarrow> x \<noteq> ch \<Longrightarrow> \<exists>p \<in> set (str_split [ch] s). x \<in> set p"
  by (induction s) (auto split: list.splits)

lemma dec_no_colon: "is_dec s \<Longrightarrow> CHR '':'' \<notin> set s"
  by (auto simp: is_dec_def list_all_iff less_eq_char_def)

lemma short_dotted_no_colon:
  assumes "short_dotted s"
  shows "CHR '':'' \<notin> set s"
proof
  assume "CHR '':'' \<in> set s"
  then obtain p where "p \<in> set (str_split ''.'' s)" "CHR '':'' \<in> set p"
    using str_split_chars[of "CHR '':''" s "CHR ''.''"] by auto
  with assms show False
    by (auto simp: short_dotted_def list_all_iff is_octet_def dest: dec_no_colon)
qed

lemma short_dotted_not_valid:
  assumes "short_dotted s"
  shows "\<not> valid_ipv4 s" "\<not> valid_ipv6 s"
proof -
  from assms show "\<not> valid_ipv4 s"
    by (auto simp: short_dotted_def valid_ipv4_def split: list.splits)
  have c: "CHR '':'' \<notin> set s" by (rule short_dotted_no_colon[OF assms])
  then have n: "\<not> str_includes s ''::''" by (auto dest: str_includes_set)
  have sp: "str_split '':'' s = [s]" by (rule str_split_no_sep[OF c])
  show "\<not> valid_ipv6 s"
    by (simp add: valid_ipv6_def valid_ipv6_hex_def valid_ipv6_quad_def ipv6_groups_def
        ipv6_quad_fields_def n sp)
qed

lemma ipv4ToNumber_short:
  assumes "short_dotted s"
  shows "ipv4ToNumber s = Num (uint (zero_padded_value s))"
proof -
  from assms have len: "length (str_split ''.'' s) \<le> 3"
    and oc: "list_all is_octet (str_split ''.'' s)"
    by (auto simp: short_dotted_def)
  have ne: "str_split ''.'' s \<noteq> []" by (rule str_split_not_Nil)
  have z: "push_bit 24 (word_of_nat A) OR push_bit 16 (word_of_nat B) OR push_bit 8 (word_of_nat C)
             OR word_of_nat 0
           = (word_of_nat (((A * 256 + B) * 256 + C) * 256 + 0) :: 32 word)"
    if "B < 256" "C < 256" for A B C
    by (rule bytes_or) (use that in auto)
  from len ne show ?thesis
  proof (cases rule: short_cases)
    case (one a)
    with oc have p: "parseInt a 10 = Num (int (dec_value a))"
      by (auto simp: is_octet_def parseInt_dec)
    from z[of 0 0 "dec_value a"] show ?thesis
      by (simp add: ipv4ToNumber_def zero_padded_value_def one p at_index_def toInt32_def pad4)
  next
    case (two a b)
    with oc have p: "parseInt a 10 = Num (int (dec_value a))"
      "parseInt b 10 = Num (int (dec_value b))" and b: "dec_value b < 256"
      by (auto simp: is_octet_def parseInt_dec)
    from z[of "dec_value b" 0 "dec_value a"] b show ?thesis
      by (simp add: ipv4ToNumber_def zero_padded_value_def two p at_index_def toInt32_def pad4)
  next
    case (three a b c)
    with oc have p: "parseInt a 10 = Num (int (dec_value a))"
      "parseInt b 10 = Num (int (dec_value b))" "parseInt c 10 = Num (int (dec_value c))"
      and b: "dec_value b < 256" "dec_value c < 256"
      by (auto simp: is_octet_def parseInt_dec)
    from z[of "dec_value b" "dec_value c" "dec_value a"] b show ?thesis
      by (simp add: ipv4ToNumber_def zero_padded_value_def three p at_index_def toInt32_def pad4)
  qed
qed

lemma isIpv4InCidr_short:
  assumes "short_dotted a" "valid_ipv4_cidr c"
  shows "isIpv4InCidr a c
         = share_top_bits (cidr_length c) (zero_padded_value a) (ipv4_value (cidr_base c))"
proof -
  from assms(2) have vb: "valid_ipv4 (cidr_base c)" and dl: "is_dec (cidr_bits c)"
    and le: "cidr_length c \<le> 32"
    by (auto simp: valid_ipv4_cidr_def)
  have sp: "str_split ''/'' c = [cidr_base c, cidr_bits c]" by (rule cidr_split[OF dl])
  have pl: "parseInt (cidr_bits c) 10 = Num (int (cidr_length c))"
    using parseInt_dec[OF dl] by (simp add: cidr_length_def)
  show ?thesis
    by (simp add: isIpv4InCidr_def sp at_index_def parseInt_opt_def pl cidr_mask_valid[OF le]
        ipv4ToNumber_short[OF assms(1)] ipv4ToNumber_valid[OF vb] toInt32_def
        and_not_mask_eq_iff share_top_bits_def)
qed

text \<open>
  C3, as the code has it. \<open>searchByIp\<close> does not check that its argument is an address.
  Text of one to three decimal octets between dots is neither an IPv4 nor an IPv6
  literal; on a loaded dataset whose IPv4 blocks are well formed the search answers it
  all the same, with the records whose block contains the address that the text
  becomes once zero octets are appended.
\<close>

theorem short_address_is_searched:
  assumes "fetchIpRanges st0 now res = (st, l)" "l \<noteq> Failed"
    and "list_all (\<lambda>p. valid_ipv4_cidr (ip_prefix p)) (records4 st)"
    and "short_dotted addr"
  shows "\<not> valid_ipv4 addr \<and> \<not> valid_ipv6 addr
         \<and> (\<exists>ms. searchByIp st addr = Inr \<lparr>ip = addr, found = (ms \<noteq> []), matches = ms\<rparr>
                \<and> ms = map (\<lambda>p. \<lparr>service_m = service p, region_m = region p,
                                    prefix_m = ip_prefix p,
                                    network_border_group_m = network_border_group p\<rparr>)
                         (filter (\<lambda>p. share_top_bits (cidr_length (ip_prefix p))
                                         (zero_padded_value addr)
                                         (ipv4_value (cidr_base (ip_prefix p))))
                            (records4 st)))"
proof -
  note d = successful_refresh_data [OF assms(1,2)]
  have c: "\<not> str_includes addr '':''"
    using short_dotted_no_colon[OF assms(4)] by (auto dest: str_includes_set)
  have f: "filter (\<lambda>p. isIpv4InCidr addr (ip_prefix p)) (records4 st)
           = filter (\<lambda>p. share_top_bits (cidr_length (ip_prefix p)) (zero_padded_value addr)
                            (ipv4_value (cidr_base (ip_prefix p)))) (records4 st)"
    using assms(3) by (intro filter_cong refl) (simp add: list_all_iff isIpv4InCidr_short[OF assms(4)])
  have "searchByIp st addr
        = Inr \<lparr>ip = addr, found = (search_ipv4 addr (records4 st) \<noteq> []),
               matches = search_ipv4 addr (records4 st)\<rparr>"
    by (simp add: searchByIp_def d(1,2) c)
  then show ?thesis
    using short_dotted_not_valid[OF assms(4)] by (simp add: search_ipv4_def f)
qed

theorem short_address_is_searched_witness:
  "fetchIpRanges initial_state ''t1'' (HttpOk (JDoc one_record))
     = (loaded one_record, Fetched (Some ''7'') 1 1 0)
   \<and> Fetched (Some ''7'') 1 1 0 \<noteq> Failed
   \<and> list_all (\<lambda>p. valid_ipv4_cidr (ip_prefix p)) (records4 (loaded one_record))
   \<and> short_dotted ''1.2.3''
   \<and> \<not> valid_ipv4 ''1.2.3'' \<and> \<not> valid_ipv6 ''1.2.3''
   \<and> (\<exists>ms. searchByIp (loaded one_record) ''1.2.3''
               = Inr \<lparr>ip = ''1.2.3'', found = (ms \<noteq> []), matches = ms\<rparr>)"
proof -
  have f: "fetchIpRanges initial_state ''t1'' (HttpOk (JDoc one_record))
           = (loaded one_record, Fetched (Some ''7'') 1 1 0)"
    by code_simp
  have n: "Fetched (Some ''7'') 1 1 0 \<noteq> Failed" by simp
  have v: "list_all (\<lambda>p. valid_ipv4_cidr (ip_prefix p)) (records4 (loaded one_record))"
    by code_simp
  have s: "short_dotted ''1.2.3''" by code_simp
  from short_address_is_searched [OF f n v s] f n v s show ?thesis by blast
qed

text \<open>
  C3, as the specification states it, fails: \<open>1.2.3\<close> is neither an IPv4 nor an IPv6
  literal, yet the search returns a match, computed with the missing octet as 0.
\<close>

theorem malformed_address_counterexample:
  "\<not> valid_ipv4 ''1.2.3'' \<and> \<not> valid_ipv6 ''1.2.3''
   \<and> searchByIp (loaded one_record) ''1.2.3''
       = Inr \<lparr>ip = ''1.2.3'', found = True,
              matches = [\<lparr>service_m = ''EC2'', region_m = ''r1'', prefix_m = ''1.2.3.0/24'',
                          network_border_group_m = ''r1''\<rparr>]\<rparr>"
proof (intro conjI)
  show "\<not> valid_ipv4 ''1.2.3''" by code_simp
  show "\<not> valid_ipv6 ''1.2.3''" by code_simp
  show "searchByIp (loaded one_record) ''1.2.3''
       = Inr \<lparr>ip = ''1.2.3'', found = True,
              matches = [\<lparr>service_m = ''EC2'', region_m = ''r1'', prefix_m = ''1.2.3.0/24'',
                          network_border_group_m = ''r1''\<rparr>]\<rparr>"
    by code_simp
qed

section \<open>Counts and lengths\<close>

lemma set_map_set: "set (map_set k v m) \<subseteq> insert (k, v) (set m)"
  by (induction m) auto

lemma set_obj_set: "set (obj_set k v m) \<subseteq> insert (k, v) (set m)"
  using set_map_set [of k v m] by (auto simp: obj_set_def)

lemma set_own_properties: "set (own_properties m) = set m"
  by (auto simp: own_properties_def)






lemma find_SomeD: "find P xs = Some x \<Longrightarrow> x \<in> set xs \<and> P x"
  by (induction xs) (auto split: if_splits)

lemma counts_to_ranges: "counts_agree (to_ranges k r)"
  by (simp add: counts_agree_def to_ranges_def)

lemma counts_omit_service: "counts_agree (omit_service v) = counts_agree v"
  by (simp add: counts_agree_def omit_service_def)

lemma counts_refill:
  "list_all (\<lambda>(k, v). counts_agree v) acc \<Longrightarrow>
   list_all (\<lambda>(k, v). counts_agree v)
     (foldl (\<lambda>m (svc, r). map_set svc (to_ranges svc r) m) acc xs)"
proof (induction xs arbitrary: acc)
  case Nil
  then show ?case by simp
next
  case (Cons x xs)
  obtain k r where x: "x = (k, r)" by (cases x)
  have "list_all (\<lambda>(k, v). counts_agree v) (map_set k (to_ranges k r) acc)"
    using Cons.prems set_map_set [of k "to_ranges k r" acc]
    by (auto simp: list_all_iff counts_to_ranges)
  from Cons.IH [OF this] show ?case by (simp add: x)
qed

lemma counts_groupByService:
  assumes "groupByService st = Inr st'"
    and "list_all (\<lambda>(k, v). counts_agree v) (serviceIpRangesMap st)"
  shows "list_all (\<lambda>(k, v). counts_agree v) (serviceIpRangesMap st')"
proof (cases "truthy (ipRangesData st)")
  case False
  with assms show ?thesis by (simp add: groupByService_def)
next
  case True
  with assms(1) obtain sm where
    "serviceIpRangesMap st' = foldl (\<lambda>m (svc, r). map_set svc (to_ranges svc r) m) [] sm"
    by (auto simp: groupByService_def Let_def split: option.splits)
  then show ?thesis using counts_refill [of "[]" sm] by simp
qed

lemma counts_fetch:
  assumes "list_all (\<lambda>(k, v). counts_agree v) (serviceIpRangesMap st)"
  shows "list_all (\<lambda>(k, v). counts_agree v) (serviceIpRangesMap (fst (fetchIpRanges st now res)))"
proof (cases res)
  case HttpError
  with assms show ?thesis by (simp add: fetchIpRanges_def)
next
  case (HttpOk d)
  let ?st1 = "st\<lparr>ipRangesData := d, lastUpdated := Some now\<rparr>"
  have 1: "list_all (\<lambda>(k, v). counts_agree v) (serviceIpRangesMap ?st1)"
    using assms by simp
  show ?thesis
  proof (cases "groupByService ?st1")
    case (Inl e)
    with 1 HttpOk show ?thesis by (simp add: fetchIpRanges_def)
  next
    case (Inr st2)
    from counts_groupByService [OF Inr 1] Inr HttpOk show ?thesis
      by (simp add: fetchIpRanges_def split: sum.splits)
  qed
qed

lemma counts_reachable:
  "reachable st \<Longrightarrow> list_all (\<lambda>(k, v). counts_agree v) (serviceIpRangesMap st)"
proof (induction rule: reachable.induct)
  case start
  show ?case by (simp add: initial_state_def)
next
  case (refresh st now res)
  from refresh.IH show ?case by (rule counts_fetch)
qed

lemma counts_filter:
  "filterByServiceAndRegion st svc reg = Inr (Some v) \<Longrightarrow> counts_agree v"
  by (auto simp: filterByServiceAndRegion_def Let_def counts_agree_def
      split: if_splits option.splits)

lemma counts_filter_all:
  "filter_all st reg ks acc = Inr res \<Longrightarrow> list_all (\<lambda>(k, r). counts_agree r) acc \<Longrightarrow>
   list_all (\<lambda>(k, r). counts_agree r) res"
proof (induction ks arbitrary: acc)
  case Nil
  then show ?case by simp
next
  case (Cons k ks)
  show ?case
  proof (cases "filterByServiceAndRegion st (toUpperCase k) reg")
    case (Inl e)
    with Cons.prems show ?thesis by simp
  next
    case (Inr r)
    show ?thesis
    proof (cases r)
      case None
      with Inr Cons show ?thesis by simp
    next
      case (Some v)
      have "list_all (\<lambda>(k, r). counts_agree r) (obj_set k (omit_service v) acc)"
        using Cons.prems(2) set_obj_set [of k "omit_service v" acc]
          counts_filter [of st "toUpperCase k" reg v] Inr Some
        by (auto simp: list_all_iff counts_omit_service)
      with Cons.IH Cons.prems Inr Some show ?thesis
        by (auto split: if_splits)
    qed
  qed
qed

lemma counts_unfiltered:
  "list_all (\<lambda>(k, v). counts_agree v) xs \<Longrightarrow> list_all (\<lambda>(k, r). counts_agree r) acc \<Longrightarrow>
   list_all (\<lambda>(k, r). counts_agree r)
     (foldl (\<lambda>acc (serviceName, ranges). obj_set serviceName (omit_service ranges) acc) acc xs)"
proof (induction xs arbitrary: acc)
  case Nil
  then show ?case by simp
next
  case (Cons x xs)
  obtain k v where x: "x = (k, v)" by (cases x)
  have "list_all (\<lambda>(k, r). counts_agree r) (obj_set k (omit_service v) acc)"
    using Cons.prems set_obj_set [of k "omit_service v" acc]
    by (auto simp: list_all_iff counts_omit_service x)
  from Cons.IH [OF _ this] Cons.prems(1) show ?case by (simp add: x)
qed

text \<open>
  C10. In every state a sequence of refreshes can reach, each \<open>ServiceIpRanges\<close> that
  \<open>getServiceIpRanges\<close> returns, and each entry of the \<open>services\<close> that
  \<open>getAllServiceIpRanges\<close> returns, with a region filter or without, has
  \<open>count.ipv4\<close> equal to the length of \<open>ipv4_prefixes\<close> and \<open>count.ipv6\<close> equal to
  the length of \<open>ipv6_prefixes\<close>.
\<close>

theorem counts_equal_lengths:
  assumes "reachable st"
  shows "(getServiceIpRanges st svc reg = Inr (Some v) \<longrightarrow> counts_agree v)
         \<and> (getAllServiceIpRanges st reg = Inr a \<longrightarrow>
              list_all (\<lambda>(k, r). counts_agree r) (services_a a))"
proof (intro conjI impI)
  note inv = counts_reachable [OF assms]
  show "counts_agree v" if g: "getServiceIpRanges st svc reg = Inr (Some v)"
  proof (cases "given reg \<and> truthy (ipRangesData st)")
    case True
    with g show ?thesis by (auto simp: getServiceIpRanges_def dest: counts_filter)
  next
    case False
    with g obtain k where "find (\<lambda>(key, v). toUpperCase key = toUpperCase svc) (serviceIpRangesMap st)
                           = Some (k, v)"
      by (auto simp: getServiceIpRanges_def)
    then have "(k, v) \<in> set (serviceIpRangesMap st)"
      by (auto dest: find_SomeD)
    with inv show ?thesis by (auto simp: list_all_iff)
  qed
  show "list_all (\<lambda>(k, r). counts_agree r) (services_a a)"
    if g: "getAllServiceIpRanges st reg = Inr a"
  proof (cases "given reg \<and> truthy (ipRangesData st)")
    case True
    with g obtain res where
      "filter_all st (case reg of None \<Rightarrow> [] | Some t \<Rightarrow> t) (map fst (serviceIpRangesMap st)) []
       = Inr res" "services_a a = own_properties res"
      by (auto simp: getAllServiceIpRanges_def split: sum.splits)
    then show ?thesis
      using counts_filter_all [of st _ _ "[]" res]
      by (simp add: list_all_iff set_own_properties)
  next
    case False
    with g have "services_a a
       = own_properties
           (foldl (\<lambda>acc (serviceName, ranges). obj_set serviceName (omit_service ranges) acc) []
              (serviceIpRangesMap st))"
      by (auto simp: getAllServiceIpRanges_def)
    then show ?thesis
      using counts_unfiltered [OF inv, of "[]"]
      by (simp add: list_all_iff set_own_properties)
  qed
qed

theorem counts_equal_lengths_witness:
  "reachable (loaded one_record)
   \<and> getServiceIpRanges (loaded one_record) ''ec2'' (Some ''R1'')
       = Inr (Some \<lparr>ipv4_prefixes = [''1.2.3.0/24''], ipv6_prefixes_s = [],
                     count = \<lparr>ipv4 = 1, ipv6 = 0\<rparr>, service_s = ''EC2''\<rparr>)
   \<and> counts_agree \<lparr>ipv4_prefixes = [''1.2.3.0/24''], ipv6_prefixes_s = [],
                     count = \<lparr>ipv4 = 1, ipv6 = 0\<rparr>, service_s = ''EC2''\<rparr>
   \<and> getAllServiceIpRanges (loaded one_record) None
       = Inr \<lparr>syncToken_a = ''7'', lastUpdated_a = ''t1'',
              services_a = [(''EC2'', \<lparr>ipv4_prefixes = [''1.2.3.0/24''], ipv6_prefixes_s = [],
                                       count = \<lparr>ipv4 = 1, ipv6 = 0\<rparr>\<rparr>)]\<rparr>
   \<and> list_all (\<lambda>(k, r). counts_agree r)
        [(''EC2'', \<lparr>ipv4_prefixes = [''1.2.3.0/24''], ipv6_prefixes_s = [],
                    count = \<lparr>ipv4 = 1, ipv6 = 0\<rparr>\<rparr>)]"
proof -
  have r: "reachable (loaded one_record)"
    unfolding loaded_def by (rule reachable.refresh [OF reachable.start])
  have g: "getServiceIpRanges (loaded one_record) ''ec2'' (Some ''R1'')
       = Inr (Some \<lparr>ipv4_prefixes = [''1.2.3.0/24''], ipv6_prefixes_s = [],
                     count = \<lparr>ipv4 = 1, ipv6 = 0\<rparr>, service_s = ''EC2''\<rparr>)"
    by code_simp
  have a: "getAllServiceIpRanges (loaded one_record) None
       = Inr \<lparr>syncToken_a = ''7'', lastUpdated_a = ''t1'',
              services_a = [(''EC2'', \<lparr>ipv4_prefixes = [''1.2.3.0/24''], ipv6_prefixes_s = [],
                                       count = \<lparr>ipv4 = 1, ipv6 = 0\<rparr>\<rparr>)]\<rparr>"
    by code_simp
  from counts_equal_lengths [OF r, where svc = "''ec2''" and reg = "Some ''R1''"] g
  have "counts_agree \<lparr>ipv4_prefixes = [''1.2.3.0/24''], ipv6_prefixes_s = [],
                     count = \<lparr>ipv4 = 1, ipv6 = 0\<rparr>, service_s = ''EC2''\<rparr>"
    by blast
  moreover from counts_equal_lengths [OF r, where reg = None] a
  have "list_all (\<lambda>(k, r). counts_agree r)
        [(''EC2'', \<lparr>ipv4_prefixes = [''1.2.3.0/24''], ipv6_prefixes_s = [],
                    count = \<lparr>ipv4 = 1, ipv6 = 0\<rparr>\<rparr>)]"
    by (metis AllServicesIpRanges.select_convs(3))
  ultimately show ?thesis using r g a by blast
qed

section \<open>What the cached map holds\<close>
















section \<open>Names without regard to case\<close>








section \<open>Looking a service up\<close>






section \<open>Search and lookup agree\<close>













section \<open>All services, with and without a region\<close>














end
